theory Spec2Isabelle
  imports Complex_Main
begin

section \<open>Fixture generator: UTM parameters\<close>

text \<open>
  \<^verbatim>\<open>generateUtm\<close> (session helpers, and verbatim again in the combined server file) draws
  from four fixed tables with \<^verbatim>\<open>table[Math.floor(Math.random() * table.length)]\<close>.
  \<^verbatim>\<open>Math.random()\<close> is a parameter here: a real number, which the runtime takes from
  the interval from 0 (included) to 1 (excluded); floating-point rounding is not modelled.
  An index outside the table yields \<^verbatim>\<open>undefined\<close> in JavaScript, which is \<open>None\<close>.
\<close>

definition sources :: "string list" where
  "sources = [''google'', ''chatgpt'', ''facebook'', ''twitter'', ''direct'', ''email'']"

definition campaigns :: "string list" where
  "campaigns = [''winter2024'', ''socialads'', ''emailblast'', ''organic'']"

definition mediums :: "string list" where
  "mediums = [''search'', ''social'', ''cpc'', ''email'', ''organic'']"

definition searchTerms :: "string list" where
  "searchTerms = [''movie streaming'', ''watch movies online'', ''best streaming service'',
     ''new movies'']"

text \<open>\<^verbatim>\<open>xs[Math.floor(r * xs.length)]\<close>\<close>

definition random_element :: "'a list \<Rightarrow> real \<Rightarrow> 'a option" where
  "random_element xs r =
     (let i = \<lfloor>r * real (length xs)\<rfloor>
      in if 0 \<le> i \<and> i < int (length xs) then Some (xs ! nat i) else None)"

text \<open>
  The object returned: the three fields always set, and \<^verbatim>\<open>utm_term\<close>, a property that
  is added only inside the \<^verbatim>\<open>if\<close>; \<open>None\<close> in \<open>utm_term\<close> is the property being absent.
\<close>

record utm_params =
  utm_source :: "string option"
  utm_medium :: "string option"
  utm_campaign :: "string option"
  utm_term :: "string option"

text \<open>
  The draws in the order the source makes them: medium, source, campaign, and the search
  term (drawn only on the search branch).
\<close>

definition generateUtm :: "real \<Rightarrow> real \<Rightarrow> real \<Rightarrow> real \<Rightarrow> utm_params" where
  "generateUtm r_medium r_source r_campaign r_term =
     (let medium = random_element mediums r_medium;
          params = \<lparr> utm_source = random_element sources r_source,
                     utm_medium = medium,
                     utm_campaign = random_element campaigns r_campaign,
                     utm_term = None \<rparr>
      in if medium = Some ''search''
         then params \<lparr> utm_term := random_element searchTerms r_term \<rparr>
         else params)"

section \<open>JavaScript values, exceptions and statements\<close>

text \<open>
  The values the run loop branches on: what a collaborator call hands back, tested for
  truthiness or spliced into a template string.
\<close>

datatype js_value = Undefined | Null | Bool bool | Str string | Obj

fun truthy :: "js_value \<Rightarrow> bool" where
  "truthy Undefined = False"
| "truthy Null = False"
| "truthy (Bool b) = b"
| "truthy (Str t) = (t \<noteq> [])"
| "truthy Obj = True"

text \<open>\<^verbatim>\<open>`${v}`\<close>\<close>

fun template :: "js_value \<Rightarrow> string" where
  "template Undefined = ''undefined''"
| "template Null = ''null''"
| "template (Bool b) = (if b then ''true'' else ''false'')"
| "template (Str t) = t"
| "template Obj = ''[object Object]''"

text \<open>
  What is thrown is an \<^verbatim>\<open>Error\<close> object: its constructor name and its \<^verbatim>\<open>message\<close>. The
  collaborators (the session provider's client, the browser driver) and the runtime itself
  throw nothing else, and every handler of the program reads \<^verbatim>\<open>error.message\<close>.
\<close>

datatype error_name = Error | TypeError | ReferenceError

datatype js_error = Thrown error_name string

fun message :: "js_error \<Rightarrow> string" where
  "message (Thrown _ m) = m"

text \<open>
  A statement runs on a state and either completes with a value or throws; in both cases
  the effects it had so far stay. An \<^verbatim>\<open>await\<close> is the point where the outcome of the
  awaited call (supplied by an environment record) comes back: resolved is \<open>Inr\<close>,
  rejected is \<open>Inl\<close>.
\<close>

type_synonym ('s, 'a) stmt = "'s \<Rightarrow> (js_error + 'a) \<times> 's"

definition ret :: "'a \<Rightarrow> ('s, 'a) stmt" where
  "ret v s = (Inr v, s)"

definition throw :: "js_error \<Rightarrow> ('s, 'a) stmt" where
  "throw e s = (Inl e, s)"

definition seq :: "('s, 'a) stmt \<Rightarrow> ('a \<Rightarrow> ('s, 'b) stmt) \<Rightarrow> ('s, 'b) stmt" where
  "seq m f s = (case m s of (Inl e, s') \<Rightarrow> (Inl e, s') | (Inr v, s') \<Rightarrow> f v s')"

fun block :: "('s, unit) stmt list \<Rightarrow> ('s, unit) stmt" where
  "block [] = ret ()"
| "block (m # ms) = seq m (\<lambda>_. block ms)"

definition if_do :: "bool \<Rightarrow> ('s, unit) stmt \<Rightarrow> ('s, unit) stmt" where
  "if_do b m = (if b then m else ret ())"

text \<open>\<^verbatim>\<open>try { m } catch (e) { h e }\<close>\<close>

definition try_catch :: "('s, 'a) stmt \<Rightarrow> (js_error \<Rightarrow> ('s, 'a) stmt) \<Rightarrow> ('s, 'a) stmt" where
  "try_catch m h s = (case m s of (Inl e, s') \<Rightarrow> h e s' | (Inr v, s') \<Rightarrow> (Inr v, s'))"

text \<open>
  \<^verbatim>\<open>try { m } catch (e) { h e } finally { f }\<close>, for a finally block without a
  \<^verbatim>\<open>return\<close> of its own: it runs last on every path; when it completes, the completion
  of the try or catch block stands (a returned value or an exception thrown from the catch
  block), and when it throws, that exception replaces it.
\<close>

definition try_catch_finally ::
  "('s, 'a) stmt \<Rightarrow> (js_error \<Rightarrow> ('s, 'a) stmt) \<Rightarrow> ('s, unit) stmt \<Rightarrow> ('s, 'a) stmt" where
  "try_catch_finally m h f s =
     (case try_catch m h s of
        (r, s') \<Rightarrow> (case f s' of (Inl e, s'') \<Rightarrow> (Inl e, s'') | (Inr _, s'') \<Rightarrow> (r, s'')))"

section \<open>The session run loop (session helpers)\<close>

text \<open>
  What a run does to the world is recorded in order: console output, calls to the
  collaborators (browser driver, pacing helpers, fixture tools), and the two calls to the
  session provider. A console line and a collaborator call are identified by the line of
  the session helper file on which they stand; the arguments of collaborator calls, which
  never decide control flow, are left out.
\<close>

datatype level = Log | Warn | Err

datatype console_arg = Number int | Text string

datatype event =
    Console level nat "console_arg list"
  | Call nat
  | SessionsCreate
  | SessionsUpdate string

text \<open>The object \<^verbatim>\<open>bb.sessions.create\<close> resolves to; \<open>session_id\<close> is its \<^verbatim>\<open>id\<close>.\<close>

record remote_session =
  session_id :: string
  connectUrl :: string

text \<open>\<open>session\<close> is the variable \<^verbatim>\<open>let session;\<close>, \<open>None\<close> while it is undefined.\<close>

record run_state =
  session :: "remote_session option"
  trace :: "event list"

text \<open>
  Everything outside the function that a run depends on: how the call on each line
  settles, what the provider answers to create and to the release request, whether the
  drawn device profile carries a user agent, and the draw for the consent checkbox.
  Each line of the function runs at most once in a run, so one outcome per line is all
  a run can observe.
\<close>

record session_env =
  outcome :: "nat \<Rightarrow> js_error + js_value"
  create_result :: "js_error + remote_session"
  update_result :: "js_error + unit"
  userAgent :: "string option"
  adult_draw :: real

definition console :: "level \<Rightarrow> nat \<Rightarrow> console_arg list \<Rightarrow> (run_state, unit) stmt" where
  "console lv line args s = (Inr (), s \<lparr> trace := trace s @ [Console lv line args] \<rparr>)"

definition call_val :: "session_env \<Rightarrow> nat \<Rightarrow> (run_state, js_value) stmt" where
  "call_val env line s = (outcome env line, s \<lparr> trace := trace s @ [Call line] \<rparr>)"

definition call :: "session_env \<Rightarrow> nat \<Rightarrow> (run_state, unit) stmt" where
  "call env line = seq (call_val env line) (\<lambda>_. ret ())"

text \<open>\<^verbatim>\<open>session = await bb.sessions.create({...})\<close>: the assignment happens only on success.\<close>

definition sessions_create :: "session_env \<Rightarrow> (run_state, unit) stmt" where
  "sessions_create env s =
     (case create_result env of
        Inl e \<Rightarrow> (Inl e, s \<lparr> trace := trace s @ [SessionsCreate] \<rparr>)
      | Inr created \<Rightarrow> (Inr (), s \<lparr> session := Some created, trace := trace s @ [SessionsCreate] \<rparr>))"

text \<open>\<^verbatim>\<open>await bb.sessions.update(id, { status: "REQUEST_RELEASE", ... })\<close>\<close>

definition sessions_update :: "session_env \<Rightarrow> string \<Rightarrow> (run_state, unit) stmt" where
  "sessions_update env sid s = (update_result env, s \<lparr> trace := trace s @ [SessionsUpdate sid] \<rparr>)"

text \<open>A method call on \<^verbatim>\<open>page\<close>, which is \<^verbatim>\<open>undefined\<close> when the browser has no page.\<close>

definition call_on :: "js_value \<Rightarrow> session_env \<Rightarrow> nat \<Rightarrow> (run_state, unit) stmt" where
  "call_on receiver env line =
     (if receiver = Undefined \<or> receiver = Null
      then throw (Thrown TypeError ''Cannot read properties of undefined'')
      else call env line)"

text \<open>Lines 15 to 29: the start line, the geolocation draw, and the acquisition.\<close>

definition acquire :: "int \<Rightarrow> int \<Rightarrow> session_env \<Rightarrow> (run_state, unit) stmt" where
  "acquire sessionNumber totalSessions env =
     block [console Log 15 [Number sessionNumber, Number totalSessions],
            call env 16,
            sessions_create env]"

text \<open>
  Lines 32 to 66: device profile, connection, viewport, the user-agent header in a try
  block of its own, timeouts. The four fixture draws of lines 58 to 61 are pure and total;
  their values only reach arguments of later calls.
\<close>

definition prepare_page :: "session_env \<Rightarrow> (run_state, unit) stmt" where
  "prepare_page env =
     block [call env 32,
            console Log 33 [],
            call env 35,
            seq (call_val env 36) (\<lambda>defaultContext.
            seq (if defaultContext = Undefined \<or> defaultContext = Null then ret Undefined
                 else call_val env 37) (\<lambda>page.
            block [call_on page env 40,
                   try_catch (if_do (userAgent env \<noteq> None \<and> userAgent env \<noteq> Some []) (call env 45))
                     (\<lambda>e. console Warn 50 [Text (message e)]),
                   call env 54,
                   call env 55,
                   console Log 64 [],
                   call env 65,
                   console Log 66 []]))]"

text \<open>Lines 68 to 143: landing page, the optional interstitial, the signup form.\<close>

definition signup :: "session_env \<Rightarrow> (run_state, unit) stmt" where
  "signup env =
     block [try_catch
              (block [call env 70,
                      try_catch
                        (seq (call_val env 77) (\<lambda>continueButton.
                           if_do (truthy continueButton) (block [call env 84, call env 86])))
                        (\<lambda>buttonError. console Log 90 []),
                      call env 93,
                      call env 96,
                      call env 102,
                      call env 103])
              (\<lambda>error. block [console Err 106 [Text (message error)], throw error]),
            call env 110, call env 112, call env 113, call env 114,
            call env 116, call env 117, call env 118, call env 119,
            call env 120, call env 121, call env 124,
            if_do (adult_draw env < 55 / 100) (block [call env 128, call env 129]),
            call env 133, call env 134, call env 137, call env 138,
            call env 141, call env 142, call env 143,
            console Log 145 [], console Log 146 [], console Log 147 []]"

text \<open>Lines 151 to 201: the login form and the check for an error banner.\<close>

definition login :: "session_env \<Rightarrow> (run_state, unit) stmt" where
  "login env =
     block [call env 151,
            try_catch
              (block [call env 153,
                      try_catch
                        (seq (call_val env 159) (\<lambda>csrfToken.
                           if_do (\<not> truthy csrfToken) (console Warn 168 [])))
                        (\<lambda>error. console Warn 171 [Text (message error)]),
                      call env 175, call env 176, call env 177, call env 178,
                      console Log 179 [], console Log 180 [], console Log 181 [],
                      call env 184, call env 185,
                      seq (call_val env 188) (\<lambda>hasError.
                        if_do (truthy hasError)
                          (block [console Err 194 [Text (template hasError)],
                                  throw (Thrown Error (''Login failed: '' @ template hasError))]))])
              (\<lambda>error. block [console Err 199 [Text (message error)], throw error])]"

text \<open>Lines 204 to 278: home page, the signup modal, the movie, logout, closing.\<close>

definition watch_and_logout :: "int \<Rightarrow> session_env \<Rightarrow> (run_state, unit) stmt" where
  "watch_and_logout sessionNumber env =
     block [call env 204,
            call env 207,
            seq (call_val env 211) (\<lambda>modalVisible.
              if_do (truthy modalVisible)
                (block [console Log 217 [],
                        try_catch (block [call env 219, call env 220])
                          (\<lambda>e. block [console Log 222 [], call env 223])])),
            try_catch
              (block [console Log 233 [], call env 234,
                      console Log 235 [], call env 236,
                      console Log 238 [], call env 239,
                      console Log 241 [], call env 242,
                      console Log 244 [], call env 245, call env 246,
                      console Log 248 [], call env 249,
                      console Log 253 []])
              (\<lambda>error. block [console Err 256 [Text (message error)], throw error]),
            call env 262, call env 263, call env 264,
            console Log 269 [Number sessionNumber]]"

text \<open>The try block of \<^verbatim>\<open>runSession\<close>, lines 15 to 279.\<close>

definition session_body :: "int \<Rightarrow> int \<Rightarrow> session_env \<Rightarrow> (run_state, bool) stmt" where
  "session_body sessionNumber totalSessions env =
     seq (block [acquire sessionNumber totalSessions env,
                 prepare_page env,
                 signup env,
                 login env,
                 watch_and_logout sessionNumber env])
         (\<lambda>_. ret True)"

text \<open>The catch block, lines 280 to 282.\<close>

definition session_handler :: "int \<Rightarrow> js_error \<Rightarrow> (run_state, bool) stmt" where
  "session_handler sessionNumber error =
     seq (console Err 281 [Number sessionNumber, Text (message error)]) (\<lambda>_. ret False)"

text \<open>
  The finally block, lines 283 to 295. \<^verbatim>\<open>session?.id\<close> is truthy when the variable holds
  a session whose identifier is a non-empty string.
\<close>

definition session_cleanup :: "session_env \<Rightarrow> (run_state, unit) stmt" where
  "session_cleanup env s =
     (case session s of
        None \<Rightarrow> ret () s
      | Some created \<Rightarrow>
          if_do (session_id created \<noteq> [])
            (try_catch (sessions_update env (session_id created))
               (\<lambda>cleanupError.
                  console Warn 292 [Text (session_id created), Text (message cleanupError)])) s)"

definition runSession_stmt :: "int \<Rightarrow> int \<Rightarrow> session_env \<Rightarrow> (run_state, bool) stmt" where
  "runSession_stmt sessionNumber totalSessions env =
     try_catch_finally (session_body sessionNumber totalSessions env)
       (session_handler sessionNumber) (session_cleanup env)"

text \<open>
  \<^verbatim>\<open>runSession(sessionNumber, totalSessions, bb, BASE_DOMAIN)\<close>: the provider handle is the
  two provider answers of the environment; the domain only reaches call arguments. The
  result is what the returned promise settles to, and the record of the run.
\<close>

definition runSession :: "int \<Rightarrow> int \<Rightarrow> session_env \<Rightarrow> (js_error + bool) \<times> event list" where
  "runSession sessionNumber totalSessions env =
     (case runSession_stmt sessionNumber totalSessions env \<lparr> session = None, trace = [] \<rparr> of
        (r, s) \<Rightarrow> (r, trace s))"

section \<open>The copy of the run loop in the combined server file\<close>

text \<open>
  The combined server file declares \<^verbatim>\<open>async function runSession(sessionNumber)\<close> at
  module level. Its first statement interpolates \<^verbatim>\<open>sessionCount\<close>; the rest is the text of
  the session helper's function, up to comments and to reading the project id from a
  module constant. The identifiers that statement can resolve are the function's parameter
  and the declarations of its body, the bindings of the module (imports, constants, the two
  state variables, function declarations) and the globals of the runtime that the file
  uses. \<^verbatim>\<open>sessionCount\<close> is declared in that file
  twice, as a \<^verbatim>\<open>const\<close> inside \<^verbatim>\<open>runScheduledSessions\<close> and as a destructured \<^verbatim>\<open>const\<close>
  inside the trigger handler, both local to those functions.
\<close>

definition combined_module_bindings :: "string list" where
  "combined_module_bindings =
     [''chromium'', ''Browserbase'', ''dotenv'', ''path'', ''cron'', ''express'',
      ''fileURLToPath'', ''randomizeBrowser'', ''randomizeGeolocation'', ''moveMouseHuman'',
      ''naturalClick'', ''naturalScroll'', ''naturalType'', ''humanPause'',
      ''__dirname'', ''BROWSERBASE_API_KEY'', ''BROWSERBASE_PROJECT_ID'', ''BASE_DOMAIN'',
      ''API_KEY'', ''bb'', ''isJobRunning'', ''currentJobStats'', ''apiKeyAuth'',
      ''runScheduledSessions'', ''app'', ''port'', ''runSession'', ''generatePlanSelection'',
      ''generateUser'', ''generateUtm'', ''generateMovieNumber'']"

definition runtime_globals :: "string list" where
  "runtime_globals =
     [''console'', ''process'', ''Math'', ''Promise'', ''setTimeout'', ''Date'', ''URL'',
      ''Error'', ''Array'']"

definition combined_runSession_locals :: "string list" where
  "combined_runSession_locals =
     [''sessionNumber'', ''session'', ''geoLocation'', ''browserType'', ''deviceType'',
      ''deviceConfig'', ''browser'', ''defaultContext'', ''page'', ''user'', ''utmParams'',
      ''planSelection'', ''movieNumber'', ''userAgent'', ''fullUrl'']"

definition combined_runSession_scope :: "string list" where
  "combined_runSession_scope =
     combined_runSession_locals @ combined_module_bindings @ runtime_globals"

text \<open>Reading an identifier: a name that resolves nowhere throws a \<^verbatim>\<open>ReferenceError\<close>.\<close>

definition read_identifier :: "string list \<Rightarrow> string \<Rightarrow> ('s, unit) stmt" where
  "read_identifier scope name =
     (if name \<in> set scope then ret ()
      else throw (Thrown ReferenceError (name @ '' is not defined'')))"

text \<open>
  Lines 258 to 272 of the combined file. The arguments of \<^verbatim>\<open>console.log\<close> are evaluated
  before the call. Events of this copy carry the line numbers of the session helper's
  text, which the remaining statements share.
\<close>

definition combined_acquire :: "int \<Rightarrow> session_env \<Rightarrow> (run_state, unit) stmt" where
  "combined_acquire sessionNumber env =
     block [read_identifier combined_runSession_scope ''console'',
            read_identifier combined_runSession_scope ''sessionNumber'',
            read_identifier combined_runSession_scope ''sessionCount'',
            console Log 15 [Number sessionNumber],
            call env 16,
            sessions_create env]"

definition combined_session_body :: "int \<Rightarrow> session_env \<Rightarrow> (run_state, bool) stmt" where
  "combined_session_body sessionNumber env =
     seq (block [combined_acquire sessionNumber env,
                 prepare_page env,
                 signup env,
                 login env,
                 watch_and_logout sessionNumber env])
         (\<lambda>_. ret True)"

definition combined_runSession :: "int \<Rightarrow> session_env \<Rightarrow> (js_error + bool) \<times> event list" where
  "combined_runSession sessionNumber env =
     (case try_catch_finally (combined_session_body sessionNumber env)
             (session_handler sessionNumber) (session_cleanup env)
             \<lparr> session = None, trace = [] \<rparr> of
        (r, s) \<Rightarrow> (r, trace s))"

section \<open>The sessions server: state\<close>

text \<open>
  The module keeps two variables: the run lock \<^verbatim>\<open>isJobRunning\<close> and the statistics object
  \<^verbatim>\<open>currentJobStats\<close>. An entry of \<^verbatim>\<open>errors\<close> is \<^verbatim>\<open>{session, error}\<close>, where \<^verbatim>\<open>session\<close> is a
  run index or the string \<^verbatim>\<open>'global'\<close>.
\<close>

datatype session_ref = Run int | Global

datatype error_record = ErrorRecord session_ref string

record job_stats =
  startTime :: "string option"
  completedSessions :: int
  totalSessions :: int
  errors :: "error_record list"

text \<open>
  What the server does to the world besides answering requests: console lines (by the
  line of the server file on which they stand), calls to \<^verbatim>\<open>runSession\<close> with the run
  index and the total, and timers with their delay in milliseconds.
\<close>

datatype server_event =
    Printed level nat "console_arg list"
  | RunSessionCalled int int
  | TimeoutSet int

record server_state =
  isJobRunning :: bool
  currentJobStats :: job_stats
  effects :: "server_event list"

text \<open>Lines 64 to 70.\<close>

definition initial_server :: server_state where
  "initial_server =
     \<lparr> isJobRunning = False,
       currentJobStats = \<lparr> startTime = None, completedSessions = 0, totalSessions = 0,
                           errors = [] \<rparr>,
       effects = [] \<rparr>"

text \<open>
  The second argument of \<^verbatim>\<open>runScheduledSessions\<close>: an object with the optional properties
  \<^verbatim>\<open>sessionCount\<close> and \<^verbatim>\<open>maxConcurrent\<close> (\<open>None\<close> for a property that is undefined or null),
  or \<^verbatim>\<open>null\<close>; an argument left out is the default \<^verbatim>\<open>{}\<close>, which is \<open>Options None None\<close>.
  A count, when given, is an integer.
\<close>

datatype options = NullOptions | Options "int option" "int option"

text \<open>
  What a batch takes from outside: how each awaited \<^verbatim>\<open>runSession(i, ...)\<close> settles, the
  draws of \<^verbatim>\<open>Math.random()\<close> for the count (line 93) and for the delay of iteration \<open>i\<close>
  (line 121), and the time stamps read on a given line.
\<close>

record batch_env =
  run_result :: "int \<Rightarrow> js_error + bool"
  count_draw :: real
  delay_draw :: "int \<Rightarrow> real"
  clock :: "nat \<Rightarrow> string"

section \<open>The batch runner\<close>

definition print :: "level \<Rightarrow> nat \<Rightarrow> console_arg list \<Rightarrow> (server_state, unit) stmt" where
  "print lv line args s = (Inr (), s \<lparr> effects := effects s @ [Printed lv line args] \<rparr>)"

definition set_running :: "bool \<Rightarrow> (server_state, unit) stmt" where
  "set_running b s = (Inr (), s \<lparr> isJobRunning := b \<rparr>)"

text \<open>\<^verbatim>\<open>Math.floor(Math.random() * (52 - 23 + 1)) + 23\<close>\<close>

definition random_count :: "real \<Rightarrow> int" where
  "random_count r = \<lfloor>r * (52 - 23 + 1)\<rfloor> + 23"

text \<open>
  Line 93, \<^verbatim>\<open>options.sessionCount || ...\<close>: reading a property of \<^verbatim>\<open>null\<close> throws; a count
  that is missing or zero is falsy, and the right operand is evaluated.
\<close>

definition choose_count :: "options \<Rightarrow> real \<Rightarrow> (server_state, int) stmt" where
  "choose_count opts r =
     (case opts of
        NullOptions \<Rightarrow> throw (Thrown TypeError ''Cannot read properties of null'')
      | Options sessionCount maxConcurrent \<Rightarrow>
          (case sessionCount of
             None \<Rightarrow> ret (random_count r)
           | Some c \<Rightarrow> if c \<noteq> 0 then ret c else ret (random_count r)))"

text \<open>Lines 95 to 100.\<close>

definition reset_stats :: "string \<Rightarrow> int \<Rightarrow> (server_state, unit) stmt" where
  "reset_stats now sessionCount s =
     (Inr (), s \<lparr> currentJobStats :=
                    \<lparr> startTime = Some now, completedSessions = 0,
                      totalSessions = sessionCount, errors = [] \<rparr> \<rparr>)"

text \<open>\<^verbatim>\<open>currentJobStats.completedSessions++\<close>\<close>

definition count_completed :: "(server_state, unit) stmt" where
  "count_completed s =
     (Inr (), s \<lparr> currentJobStats :=
                    (currentJobStats s) \<lparr> completedSessions :=
                       completedSessions (currentJobStats s) + 1 \<rparr> \<rparr>)"

text \<open>\<^verbatim>\<open>currentJobStats.errors.push({ session: ..., error: ... })\<close>\<close>

definition push_error :: "session_ref \<Rightarrow> string \<Rightarrow> (server_state, unit) stmt" where
  "push_error ref msg s =
     (Inr (), s \<lparr> currentJobStats :=
                    (currentJobStats s) \<lparr> errors :=
                       errors (currentJobStats s) @ [ErrorRecord ref msg] \<rparr> \<rparr>)"

text \<open>The call \<^verbatim>\<open>runSession(i, sessionCount, bb, BASE_DOMAIN)\<close> of line 108.\<close>

definition call_runSession :: "int \<Rightarrow> int \<Rightarrow> (server_state, unit) stmt" where
  "call_runSession i sessionCount s =
     (Inr (), s \<lparr> effects := effects s @ [RunSessionCalled i sessionCount] \<rparr>)"

text \<open>An \<^verbatim>\<open>await\<close> resumes with the outcome of the awaited promise.\<close>

definition resume :: "js_error + 'a \<Rightarrow> ('s, 'a) stmt" where
  "resume settled s = (settled, s)"

text \<open>\<^verbatim>\<open>Math.floor(Math.random() * (5000 - 2000 + 1)) + 2000\<close>\<close>

definition random_delay :: "real \<Rightarrow> int" where
  "random_delay r = \<lfloor>r * (5000 - 2000 + 1)\<rfloor> + 2000"

definition set_timeout :: "int \<Rightarrow> (server_state, unit) stmt" where
  "set_timeout delay s = (Inr (), s \<lparr> effects := effects s @ [TimeoutSet delay] \<rparr>)"

text \<open>Lines 92 to 105, the start of the try block up to the loop; the value is the count.\<close>

definition begin_batch :: "string \<Rightarrow> options \<Rightarrow> batch_env \<Rightarrow> (server_state, int) stmt" where
  "begin_batch type opts env =
     seq (set_running True) (\<lambda>_.
     seq (choose_count opts (count_draw env)) (\<lambda>sessionCount.
     seq (reset_stats (clock env 96) sessionCount) (\<lambda>_.
     seq (print Log 102 [Text (clock env 102), Text type]) (\<lambda>_.
     seq (print Log 103 [Number sessionCount]) (\<lambda>_.
     ret sessionCount)))))"

text \<open>
  Lines 107 to 118, from the point where the awaited run has settled: the result is pushed
  and counted, or the error of the run is recorded. The value is the array \<^verbatim>\<open>results\<close>.
\<close>

definition record_run :: "int \<Rightarrow> bool list \<Rightarrow> js_error + bool \<Rightarrow> (server_state, bool list) stmt" where
  "record_run i results settled =
     try_catch
       (seq (resume settled) (\<lambda>result.
        seq (if_do result count_completed) (\<lambda>_.
        ret (results @ [result]))))
       (\<lambda>error. seq (push_error (Run i) (message error)) (\<lambda>_. ret results))"

text \<open>Lines 121 and 122 up to the \<^verbatim>\<open>await\<close>.\<close>

definition pause :: "batch_env \<Rightarrow> int \<Rightarrow> (server_state, unit) stmt" where
  "pause env i = set_timeout (random_delay (delay_draw env i))"

text \<open>One turn of the loop body, lines 107 to 122, with both awaits.\<close>

definition iteration :: "batch_env \<Rightarrow> int \<Rightarrow> int \<Rightarrow> bool list \<Rightarrow> (server_state, bool list) stmt" where
  "iteration env sessionCount i results =
     seq (call_runSession i sessionCount) (\<lambda>_.
     seq (record_run i results (run_result env i)) (\<lambda>results'.
     seq (pause env i) (\<lambda>_.
     ret results')))"

text \<open>\<^verbatim>\<open>for (let i = 1; i <= sessionCount; i++) { ... }\<close>, entered with the current \<open>i\<close>.\<close>

function loop :: "batch_env \<Rightarrow> int \<Rightarrow> int \<Rightarrow> bool list \<Rightarrow> (server_state, bool list) stmt" where
  "loop env sessionCount i results s =
     (if i \<le> sessionCount
      then (case iteration env sessionCount i results s of
              (Inl e, s') \<Rightarrow> (Inl e, s')
            | (Inr results', s') \<Rightarrow> loop env sessionCount (i + 1) results' s')
      else (Inr results, s))"
  by pat_completeness auto
termination
  by (relation "measure (\<lambda>(env, sessionCount, i, results, s). nat (sessionCount + 1 - i))") auto

declare loop.simps [simp del]

text \<open>Lines 126 to 128.\<close>

definition end_batch :: "int \<Rightarrow> bool list \<Rightarrow> (server_state, bool) stmt" where
  "end_batch sessionCount results =
     seq (print Log 127 [Number (int (length (filter (\<lambda>r. r) results))), Number sessionCount])
       (\<lambda>_. ret True)"

text \<open>The catch block, lines 130 to 136, and the finally block, line 138.\<close>

definition batch_handler :: "js_error \<Rightarrow> (server_state, bool) stmt" where
  "batch_handler error =
     seq (print Err 131 [Text (message error)]) (\<lambda>_.
     seq (push_error Global (message error)) (\<lambda>_.
     ret False))"

definition batch_finally :: "(server_state, unit) stmt" where
  "batch_finally = set_running False"

text \<open>
  \<^verbatim>\<open>runScheduledSessions(type, options)\<close>, run from its call to the settling of the promise
  it returns.
\<close>

definition runScheduledSessions ::
  "string \<Rightarrow> options \<Rightarrow> batch_env \<Rightarrow> (server_state, bool) stmt" where
  "runScheduledSessions type opts env s =
     (if isJobRunning s
      then seq (print Log 87 []) (\<lambda>_. ret False) s
      else try_catch_finally
             (seq (begin_batch type opts env) (\<lambda>sessionCount.
              seq (loop env sessionCount 1 []) (\<lambda>results.
              end_batch sessionCount results)))
             batch_handler batch_finally s)"

section \<open>The batch runner between two awaits\<close>

text \<open>
  The runtime is single-threaded: a call of \<^verbatim>\<open>runScheduledSessions\<close> runs until its next
  \<^verbatim>\<open>await\<close>, and only there can a request handler or another call run. A batch that is
  suspended is waiting either for the run of iteration \<open>i\<close> (line 108) or for the timer of
  iteration \<open>i\<close> (line 122); it remembers the count and the results so far.
\<close>

datatype task = AwaitingRun int int "bool list" | AwaitingTimeout int int "bool list"

text \<open>
  From the loop test of line 106 to the next suspension, or to the end of the try block.
\<close>

definition loop_head :: "int \<Rightarrow> int \<Rightarrow> bool list \<Rightarrow> (server_state, task + bool) stmt" where
  "loop_head sessionCount i results =
     (if i \<le> sessionCount
      then seq (call_runSession i sessionCount) (\<lambda>_. ret (Inl (AwaitingRun i sessionCount results)))
      else seq (end_batch sessionCount results) (\<lambda>b. ret (Inr b)))"

text \<open>
  A stretch of the try block either suspends, and then the catch and finally blocks do not
  run yet, or it leaves the try block by \<^verbatim>\<open>return\<close> or by an exception, and then they do
  and the promise of the function settles.
\<close>

definition stretch ::
  "(server_state, task + bool) stmt \<Rightarrow> server_state \<Rightarrow> (task + (js_error + bool)) \<times> server_state" where
  "stretch m s =
     (case m s of
        (Inr (Inl suspended), s') \<Rightarrow> (Inl suspended, s')
      | (Inr (Inr b), s') \<Rightarrow>
          (case try_catch_finally (ret b) batch_handler batch_finally s' of
             (r, s'') \<Rightarrow> (Inr r, s''))
      | (Inl e, s') \<Rightarrow>
          (case try_catch_finally (throw e) batch_handler batch_finally s' of
             (r, s'') \<Rightarrow> (Inr r, s'')))"

text \<open>A call of the function, up to its first suspension.\<close>

definition start_batch ::
  "string \<Rightarrow> options \<Rightarrow> batch_env \<Rightarrow> server_state \<Rightarrow> (task + (js_error + bool)) \<times> server_state" where
  "start_batch type opts env s =
     (if isJobRunning s
      then (case seq (print Log 87 []) (\<lambda>_. ret False) s of (r, s') \<Rightarrow> (Inr r, s'))
      else stretch (seq (begin_batch type opts env) (\<lambda>sessionCount. loop_head sessionCount 1 [])) s)"

text \<open>The awaited run settles: lines 109 to 122, up to the next \<^verbatim>\<open>await\<close>.\<close>

definition run_settled ::
  "batch_env \<Rightarrow> int \<Rightarrow> int \<Rightarrow> bool list \<Rightarrow> js_error + bool \<Rightarrow> server_state
     \<Rightarrow> (task + (js_error + bool)) \<times> server_state" where
  "run_settled env i sessionCount results settled =
     stretch (seq (record_run i results settled) (\<lambda>results'.
              seq (pause env i) (\<lambda>_.
              ret (Inl (AwaitingTimeout i sessionCount results')))))"

text \<open>The awaited timer fires: \<^verbatim>\<open>i++\<close> and the loop test.\<close>

definition timeout_fired ::
  "int \<Rightarrow> int \<Rightarrow> bool list \<Rightarrow> server_state \<Rightarrow> (task + (js_error + bool)) \<times> server_state" where
  "timeout_fired i sessionCount results = stretch (loop_head sessionCount (i + 1) results)"

section \<open>The HTTP surface and the process\<close>

text \<open>
  A request: the route, the \<^verbatim>\<open>x-api-key\<close> header (\<open>None\<close> when absent) and, for the trigger,
  the properties \<^verbatim>\<open>sessionCount\<close> and \<^verbatim>\<open>maxConcurrent\<close> of the parsed JSON body.
\<close>

datatype request =
    GetHealth
  | GetStatus "string option"
  | PostTrigger "string option" "int option" "int option"

text \<open>\<^verbatim>\<open>sessionCount || 'random(23-52)'\<close> in the body of the 202 response.\<close>

datatype count_config = Count int | RandomRange

datatype response =
    Healthy string bool
  | Unauthorized
  | StatusReport bool "job_stats option"
  | Conflict job_stats
  | Accepted count_config int

text \<open>The negation of the test \<^verbatim>\<open>!apiKey || apiKey !== API_KEY\<close> of the middleware.\<close>

definition authorised :: "string \<Rightarrow> string option \<Rightarrow> bool" where
  "authorised API_KEY header =
     (case header of None \<Rightarrow> False | Some apiKey \<Rightarrow> apiKey \<noteq> [] \<and> apiKey = API_KEY)"

text \<open>
  The process: the module state, the batches that are suspended, and the responses sent
  so far.
\<close>

record process =
  server :: server_state
  pending :: "task list"
  sent :: "response list"

definition respond :: "response \<Rightarrow> process \<Rightarrow> process" where
  "respond r p = p \<lparr> sent := sent p @ [r] \<rparr>"

text \<open>
  A call of \<^verbatim>\<open>runScheduledSessions\<close> made inside the process: the module state moves on, and
  the call joins the suspended batches unless its promise settled at once.
\<close>

definition invoke :: "string \<Rightarrow> options \<Rightarrow> batch_env \<Rightarrow> process \<Rightarrow> process" where
  "invoke type opts env p =
     (case start_batch type opts env (server p) of
        (Inl suspended, s') \<Rightarrow> p \<lparr> server := s', pending := pending p @ [suspended] \<rparr>
      | (Inr r, s') \<Rightarrow> p \<lparr> server := s' \<rparr>)"

text \<open>
  The three routes, lines 148 to 204. The trigger handler calls the batch runner without
  awaiting it and then answers 202; the promise of the batch runner never rejects, so the
  handler's own catch block (the 500 response) is not reached.
\<close>

definition handle :: "string \<Rightarrow> batch_env \<Rightarrow> request \<Rightarrow> process \<Rightarrow> process" where
  "handle API_KEY env req p =
     (case req of
        GetHealth \<Rightarrow> respond (Healthy (clock env 151) (isJobRunning (server p))) p
      | GetStatus header \<Rightarrow>
          if \<not> authorised API_KEY header then respond Unauthorized p
          else respond (StatusReport (isJobRunning (server p))
                 (if isJobRunning (server p) then Some (currentJobStats (server p)) else None)) p
      | PostTrigger header sessionCount maxConcurrent \<Rightarrow>
          if \<not> authorised API_KEY header then respond Unauthorized p
          else if isJobRunning (server p) then respond (Conflict (currentJobStats (server p))) p
          else
            (let maxConcurrent' = (case maxConcurrent of None \<Rightarrow> 1 | Some m \<Rightarrow> m)
             in respond
                  (Accepted
                     (case sessionCount of
                        None \<Rightarrow> RandomRange
                      | Some c \<Rightarrow> if c \<noteq> 0 then Count c else RandomRange)
                     maxConcurrent')
                  (invoke ''on-demand'' (Options sessionCount (Some maxConcurrent')) env p)))"

text \<open>
  What can happen to the process: a request arrives; some other part of the program calls
  the batch runner (the combined server file does so from its two cron schedules); the run
  awaited by the \<open>k\<close>-th suspended batch settles; the timer awaited by it fires.
\<close>

datatype occurrence =
    Arrives request
  | Invoked string options
  | RunSettles nat "js_error + bool"
  | TimeoutFires nat

definition advance :: "nat \<Rightarrow> (task + (js_error + bool)) \<times> server_state \<Rightarrow> process \<Rightarrow> process" where
  "advance k progress p =
     (case progress of
        (Inl suspended, s') \<Rightarrow> p \<lparr> server := s', pending := (pending p) [k := suspended] \<rparr>
      | (Inr r, s') \<Rightarrow> p \<lparr> server := s', pending := take k (pending p) @ drop (Suc k) (pending p) \<rparr>)"

fun occur :: "string \<Rightarrow> batch_env \<Rightarrow> process \<Rightarrow> occurrence \<Rightarrow> process" where
  "occur API_KEY env p (Arrives req) = handle API_KEY env req p"
| "occur API_KEY env p (Invoked type opts) = invoke type opts env p"
| "occur API_KEY env p (RunSettles k settled) =
     (if k < length (pending p)
      then (case pending p ! k of
              AwaitingRun i sessionCount results \<Rightarrow>
                advance k (run_settled env i sessionCount results settled (server p)) p
            | AwaitingTimeout i sessionCount results \<Rightarrow> p)
      else p)"
| "occur API_KEY env p (TimeoutFires k) =
     (if k < length (pending p)
      then (case pending p ! k of
              AwaitingRun i sessionCount results \<Rightarrow> p
            | AwaitingTimeout i sessionCount results \<Rightarrow>
                advance k (timeout_fired i sessionCount results (server p)) p)
      else p)"

definition started :: process where
  "started = \<lparr> server = initial_server, pending = [], sent = [] \<rparr>"

definition run_process :: "string \<Rightarrow> batch_env \<Rightarrow> process \<Rightarrow> occurrence list \<Rightarrow> process" where
  "run_process API_KEY env p happenings = foldl (occur API_KEY env) p happenings"

section \<open>Notions used in the proofs about the run loop\<close>

text \<open>The lines on which collaborator calls stand in a stretch of the record.\<close>

definition calls :: "event list \<Rightarrow> nat set" where
  "calls evs = {n. Call n \<in> set evs}"

text \<open>
  The state after a statement, against the state before: the session variable is the
  same, and the record grew by events none of which is a call to the session provider.
\<close>

definition extends :: "run_state \<Rightarrow> run_state \<Rightarrow> event list \<Rightarrow> bool" where
  "extends s s' evs = (session s' = session s \<and> trace s' = trace s @ evs
     \<and> SessionsCreate \<notin> set evs \<and> (\<forall>sid. SessionsUpdate sid \<notin> set evs))"

text \<open>Every collaborator call the statement makes stands on one of the given lines.\<close>

definition confined :: "nat set \<Rightarrow> (run_state, 'a) stmt \<Rightarrow> bool" where
  "confined R m = (\<forall>s r s'. m s = (r, s') \<longrightarrow> (\<exists>evs. extends s s' evs \<and> calls evs \<subseteq> R))"

text \<open>
  The lines whose call went well in an environment: the call resolved, and on line 188
  (the read of the login error banner) it resolved to something falsy.
\<close>

definition passed :: "session_env \<Rightarrow> nat set" where
  "passed env =
     {n. case outcome env n of Inl e \<Rightarrow> False | Inr v \<Rightarrow> n = 188 \<longrightarrow> \<not> truthy v}"

text \<open>
  If the statement completes without throwing, every call it made either went well or
  stands on one of the given lines.
\<close>

definition sound :: "session_env \<Rightarrow> nat set \<Rightarrow> (run_state, 'a) stmt \<Rightarrow> bool" where
  "sound env R m = (\<forall>s r s'. m s = (r, s') \<longrightarrow>
     (\<exists>evs. extends s s' evs \<and> (\<not> isl r \<longrightarrow> calls evs \<subseteq> R \<union> passed env)))"


text \<open>
  The lines inside the try blocks whose handler only logs: the user-agent header (45),
  the interstitial button (77, 84, 86), the CSRF token (159) and the click that closes
  the signup modal (219, 220).
\<close>

definition locally_handled :: "nat set" where
  "locally_handled = {45, 77, 84, 86, 159, 219, 220}"

text \<open>The record of lines 15 to 29.\<close>

definition acquire_events :: "int \<Rightarrow> int \<Rightarrow> session_env \<Rightarrow> event list" where
  "acquire_events n t env =
     [Console Log 15 [Number n, Number t], Call 16] @
     (if isl (outcome env 16) then [] else [SessionsCreate])"

text \<open>The record of the catch block, given how the try block ended.\<close>

definition failure_report :: "int \<Rightarrow> js_error + bool \<Rightarrow> event list" where
  "failure_report n r =
     (case r of Inl e \<Rightarrow> [Console Err 281 [Number n, Text (message e)]] | Inr _ \<Rightarrow> [])"

definition returned :: "js_error + bool \<Rightarrow> bool" where
  "returned r = (case r of Inl e \<Rightarrow> False | Inr b \<Rightarrow> b)"

text \<open>The record of the finally block, given the session variable.\<close>

definition release_events :: "session_env \<Rightarrow> remote_session option \<Rightarrow> event list" where
  "release_events env held =
     (case held of
        None \<Rightarrow> []
      | Some created \<Rightarrow>
          if session_id created = [] then []
          else SessionsUpdate (session_id created) #
               (case update_result env of
                  Inl e \<Rightarrow> [Console Warn 292 [Text (session_id created), Text (message e)]]
                | Inr _ \<Rightarrow> []))"

section \<open>Notions used in the proofs about the batch runner\<close>

text \<open>What one turn of the loop adds to the record.\<close>

definition run_effects :: "batch_env \<Rightarrow> int \<Rightarrow> int \<Rightarrow> server_event list" where
  "run_effects env sessionCount j =
     [RunSessionCalled j sessionCount, TimeoutSet (random_delay (delay_draw env j))]"

definition pushed :: "js_error + bool \<Rightarrow> bool list" where
  "pushed settled = (case settled of Inl e \<Rightarrow> [] | Inr b \<Rightarrow> [b])"

definition recorded :: "int \<Rightarrow> js_error + bool \<Rightarrow> error_record list" where
  "recorded j settled =
     (case settled of Inl e \<Rightarrow> [ErrorRecord (Run j) (message e)] | Inr b \<Rightarrow> [])"

definition returned_values :: "batch_env \<Rightarrow> int \<Rightarrow> bool list" where
  "returned_values env j = pushed (run_result env j)"

definition thrown_errors :: "batch_env \<Rightarrow> int \<Rightarrow> error_record list" where
  "thrown_errors env j = recorded j (run_result env j)"

definition successes :: "bool list \<Rightarrow> int" where
  "successes results = int (length (filter (\<lambda>r. r) results))"

text \<open>The module state after the run of iteration \<open>j\<close> has settled and been recorded.\<close>

definition settle :: "int \<Rightarrow> js_error + bool \<Rightarrow> server_state \<Rightarrow> server_state" where
  "settle j settled s =
     s \<lparr> currentJobStats :=
           (currentJobStats s)
             \<lparr> completedSessions := completedSessions (currentJobStats s) + successes (pushed settled),
               errors := errors (currentJobStats s) @ recorded j settled \<rparr> \<rparr>"

text \<open>The state after the loop has run from \<open>i\<close> to the count.\<close>

definition after_loop :: "batch_env \<Rightarrow> int \<Rightarrow> int \<Rightarrow> server_state \<Rightarrow> server_state" where
  "after_loop env sessionCount i s =
     s \<lparr> currentJobStats :=
           (currentJobStats s)
             \<lparr> completedSessions := completedSessions (currentJobStats s)
                  + successes (concat (map (returned_values env) [i..sessionCount])),
               errors := errors (currentJobStats s)
                  @ concat (map (thrown_errors env) [i..sessionCount]) \<rparr>,
         effects := effects s @ concat (map (run_effects env sessionCount) [i..sessionCount]) \<rparr>"

text \<open>The count that line 93 arrives at.\<close>

definition chosen_count :: "int option \<Rightarrow> real \<Rightarrow> int" where
  "chosen_count sessionCount r =
     (case sessionCount of
        None \<Rightarrow> random_count r
      | Some c \<Rightarrow> if c \<noteq> 0 then c else random_count r)"

text \<open>The state in which the loop is entered, and the state in which a batch ends.\<close>

definition batch_begun :: "string \<Rightarrow> int \<Rightarrow> batch_env \<Rightarrow> server_state \<Rightarrow> server_state" where
  "batch_begun type n env s =
     \<lparr> isJobRunning = True,
       currentJobStats = \<lparr> startTime = Some (clock env 96), completedSessions = 0,
                           totalSessions = n, errors = [] \<rparr>,
       effects = effects s @ [Printed Log 102 [Text (clock env 102), Text type],
                              Printed Log 103 [Number n]] \<rparr>"

definition batch_ended :: "int \<Rightarrow> bool list \<Rightarrow> server_state \<Rightarrow> server_state" where
  "batch_ended n results s =
     s \<lparr> isJobRunning := False,
         effects := effects s @ [Printed Log 127 [Number (successes results), Number n]] \<rparr>"

definition batch_failed :: "js_error \<Rightarrow> server_state \<Rightarrow> server_state" where
  "batch_failed e s =
     s \<lparr> isJobRunning := False,
         currentJobStats := (currentJobStats s)
           \<lparr> errors := errors (currentJobStats s) @ [ErrorRecord Global (message e)] \<rparr>,
         effects := effects s @ [Printed Err 131 [Text (message e)]] \<rparr>"

text \<open>The run indices of the calls to \<^verbatim>\<open>runSession\<close> in a record, in order.\<close>

fun attempt :: "server_event \<Rightarrow> int list" where
  "attempt (RunSessionCalled j n) = [j]"
| "attempt (Printed lv line args) = []"
| "attempt (TimeoutSet d) = []"

definition attempts :: "server_event list \<Rightarrow> int list" where
  "attempts evs = concat (map attempt evs)"

text \<open>The run lock is set exactly while one batch is suspended, and no second one is.\<close>

definition lock_inv :: "process \<Rightarrow> bool" where
  "lock_inv p =
     (if isJobRunning (server p) then length (pending p) = 1 else pending p = [])"

text \<open>
  What happens to a batch that is left alone from the run of iteration \<open>i\<close> on: each run
  settles as the environment says, and each timer fires.
\<close>

definition turns :: "batch_env \<Rightarrow> int \<Rightarrow> int \<Rightarrow> occurrence list" where
  "turns env i n = concat (map (\<lambda>j. [RunSettles 0 (run_result env j), TimeoutFires 0]) [i..n])"

section \<open>Concrete environments\<close>

text \<open>
  A run in which the first navigation times out after the session was acquired, and the
  release request fails as well.
\<close>

definition navigation_fails :: session_env where
  "navigation_fails =
     \<lparr> outcome = (\<lambda>line. if line = 70 then Inl (Thrown Error ''Timeout 60000ms exceeded'')
                           else Inr Obj),
       create_result = Inr \<lparr> session_id = ''a1b2'', connectUrl = ''wss://connect'' \<rparr>,
       update_result = Inl (Thrown Error ''503''),
       userAgent = None,
       adult_draw = 0 \<rparr>"



text \<open>A batch environment in which every run returns \<^verbatim>\<open>true\<close>.\<close>

definition steady :: batch_env where
  "steady =
     \<lparr> run_result = (\<lambda>j. Inr True),
       count_draw = 0,
       delay_draw = (\<lambda>j. 1 / 2),
       clock = (\<lambda>line. ''2024-12-01T16:00:00.000Z'') \<rparr>"

text \<open>A batch environment in which every run throws past the run loop.\<close>

definition broken :: batch_env where
  "broken =
     \<lparr> run_result = (\<lambda>j. Inl (Thrown Error ''connect ECONNREFUSED'')),
       count_draw = 1 / 2,
       delay_draw = (\<lambda>j. 0),
       clock = (\<lambda>line. ''2024-12-01T16:00:00.000Z'') \<rparr>"

text \<open>A process in the middle of a batch of three, waiting for its second run.\<close>

definition mid_batch :: process where
  "mid_batch =
     \<lparr> server =
         \<lparr> isJobRunning = True,
           currentJobStats = \<lparr> startTime = Some ''2024-12-01T16:00:00.000Z'',
                               completedSessions = 1, totalSessions = 3, errors = [] \<rparr>,
           effects = [] \<rparr>,
       pending = [AwaitingRun 2 3 [True]],
       sent = [] \<rparr>"


section \<open>Properties of the fixture generator\<close>

lemma random_element_in_table:
  assumes "0 \<le> r" and "r < 1" and "xs \<noteq> []"
  shows "\<exists>x. random_element xs r = Some x \<and> x \<in> set xs"
proof -
  define i where "i = \<lfloor>r * real (length xs)\<rfloor>"
  have pos: "0 < real (length xs)" using assms(3) by simp
  have lo: "0 \<le> i" unfolding i_def using assms(1) pos by simp
  have "r * real (length xs) < real (length xs)" using assms(2) pos by simp
  then have hi: "i < int (length xs)" unfolding i_def by (simp add: floor_less_iff)
  have "nat i < length xs" using lo hi by linarith
  then have mem: "xs ! nat i \<in> set xs" by (rule nth_mem)
  have "random_element xs r = Some (xs ! nat i)"
    unfolding random_element_def Let_def i_def [symmetric] using lo hi by simp
  then show ?thesis using mem by blast
qed

lemma tables_nonempty:
  "mediums \<noteq> []" "sources \<noteq> []" "campaigns \<noteq> []" "searchTerms \<noteq> []"
  by (simp_all add: mediums_def sources_def campaigns_def searchTerms_def)

text \<open>
  Claim C6. For draws that \<^verbatim>\<open>Math.random()\<close> can return, the object returned by
  \<^verbatim>\<open>generateUtm\<close> has a \<^verbatim>\<open>utm_term\<close> exactly when its \<^verbatim>\<open>utm_medium\<close> is the string
  \<^verbatim>\<open>"search"\<close>, and source, medium and campaign are each an entry of their own table.
\<close>

theorem generateUtm_term_iff_search:
  assumes "0 \<le> r_medium" "r_medium < 1" "0 \<le> r_source" "r_source < 1"
    and "0 \<le> r_campaign" "r_campaign < 1" "0 \<le> r_term" "r_term < 1"
  shows "(utm_term (generateUtm r_medium r_source r_campaign r_term) \<noteq> None)
           = (utm_medium (generateUtm r_medium r_source r_campaign r_term) = Some ''search'')
       \<and> utm_source (generateUtm r_medium r_source r_campaign r_term) \<in> Some ` set sources
       \<and> utm_medium (generateUtm r_medium r_source r_campaign r_term) \<in> Some ` set mediums
       \<and> utm_campaign (generateUtm r_medium r_source r_campaign r_term) \<in> Some ` set campaigns"
proof -
  obtain m where m: "random_element mediums r_medium = Some m" "m \<in> set mediums"
    using random_element_in_table [OF assms(1,2) tables_nonempty(1)] by blast
  obtain s where s: "random_element sources r_source = Some s" "s \<in> set sources"
    using random_element_in_table [OF assms(3,4) tables_nonempty(2)] by blast
  obtain c where c: "random_element campaigns r_campaign = Some c" "c \<in> set campaigns"
    using random_element_in_table [OF assms(5,6) tables_nonempty(3)] by blast
  obtain t where t: "random_element searchTerms r_term = Some t"
    using random_element_in_table [OF assms(7,8) tables_nonempty(4)] by blast
  let ?p = "generateUtm r_medium r_source r_campaign r_term"
  have fields: "utm_source ?p = Some s" "utm_medium ?p = Some m" "utm_campaign ?p = Some c"
    using m(1) s(1) c(1) by (simp_all add: generateUtm_def Let_def)
  have "utm_term ?p = (if m = ''search'' then Some t else None)"
    using m(1) t by (simp add: generateUtm_def Let_def)
  then have "(utm_term ?p \<noteq> None) = (utm_medium ?p = Some ''search'')"
    using fields(2) by simp
  moreover have "utm_source ?p \<in> Some ` set sources" using fields(1) s(2) by simp
  moreover have "utm_medium ?p \<in> Some ` set mediums" using fields(2) m(2) by simp
  moreover have "utm_campaign ?p \<in> Some ` set campaigns" using fields(3) c(2) by simp
  ultimately show ?thesis by blast
qed

theorem generateUtm_term_iff_search_witness:
  "utm_term (generateUtm 0 (1/2) (1/2) (3/4)) = Some ''new movies''
   \<and> utm_medium (generateUtm 0 (1/2) (1/2) (3/4)) = Some ''search''
   \<and> utm_term (generateUtm (1/2) (1/2) (1/2) (3/4)) = None
   \<and> utm_medium (generateUtm (1/2) (1/2) (1/2) (3/4)) = Some ''cpc''
   \<and> utm_source (generateUtm 0 (1/2) (1/2) (3/4)) \<in> Some ` set sources"
proof -
  have a: "(utm_term (generateUtm 0 (1/2) (1/2) (3/4)) \<noteq> None)
             = (utm_medium (generateUtm 0 (1/2) (1/2) (3/4)) = Some ''search'')
           \<and> utm_source (generateUtm 0 (1/2) (1/2) (3/4)) \<in> Some ` set sources"
    using generateUtm_term_iff_search [of 0 "1/2" "1/2" "3/4"] by simp
  have b: "(utm_term (generateUtm (1/2) (1/2) (1/2) (3/4)) \<noteq> None)
             = (utm_medium (generateUtm (1/2) (1/2) (1/2) (3/4)) = Some ''search'')"
    using generateUtm_term_iff_search [of "1/2" "1/2" "1/2" "3/4"] by simp
  have m0: "utm_medium (generateUtm 0 (1/2) (1/2) (3/4)) = Some ''search''"
    by (simp add: generateUtm_def random_element_def mediums_def Let_def)
  have t0: "random_element searchTerms (3/4) = Some ''new movies''"
    by (simp add: random_element_def searchTerms_def)
  have m1: "utm_medium (generateUtm (1/2) (1/2) (1/2) (3/4)) = Some ''cpc''"
    by (simp add: generateUtm_def random_element_def mediums_def Let_def)
  have t1: "utm_term (generateUtm 0 (1/2) (1/2) (3/4)) = Some ''new movies''"
    using m0 t0 by (simp add: generateUtm_def Let_def split: if_splits)
  show ?thesis using a b m0 m1 t1 by simp
qed

section \<open>Properties of the session run loop\<close>

subsection \<open>Rules for the statements\<close>

lemma calls_simps:
  "calls [] = {}" "calls (evs @ evs') = calls evs \<union> calls evs'"
  "calls [Call n] = {n}" "calls [Console lv l args] = {}"
  by (auto simp: calls_def)

lemma extends_refl: "extends s s []"
  by (simp add: extends_def)

lemma extends_trans: "extends s s1 evs1 \<Longrightarrow> extends s1 s' evs2 \<Longrightarrow> extends s s' (evs1 @ evs2)"
  by (simp add: extends_def)

lemma confinedI:
  "(\<And>s r s'. m s = (r, s') \<Longrightarrow> \<exists>evs. extends s s' evs \<and> calls evs \<subseteq> R) \<Longrightarrow> confined R m"
  unfolding confined_def by blast

lemma confinedD:
  "confined R m \<Longrightarrow> m s = (r, s') \<Longrightarrow> \<exists>evs. extends s s' evs \<and> calls evs \<subseteq> R"
  unfolding confined_def by blast

lemma soundI:
  "(\<And>s r s'. m s = (r, s') \<Longrightarrow>
      \<exists>evs. extends s s' evs \<and> (\<not> isl r \<longrightarrow> calls evs \<subseteq> R \<union> passed env))
   \<Longrightarrow> sound env R m"
  unfolding sound_def by blast

lemma soundD:
  "sound env R m \<Longrightarrow> m s = (r, s') \<Longrightarrow>
     \<exists>evs. extends s s' evs \<and> (\<not> isl r \<longrightarrow> calls evs \<subseteq> R \<union> passed env)"
  unfolding sound_def by blast

lemma confined_sound: "confined R m \<Longrightarrow> sound env R m"
proof (rule soundI)
  fix s r s' assume "confined R m" "m s = (r, s')"
  then obtain evs where "extends s s' evs" "calls evs \<subseteq> R" using confinedD by blast
  then show "\<exists>evs. extends s s' evs \<and> (\<not> isl r \<longrightarrow> calls evs \<subseteq> R \<union> passed env)"
    by blast
qed

lemma confined_ret: "confined R (ret v)"
proof (rule confinedI)
  fix s :: run_state and r :: "js_error + 'a" and s' assume "ret v s = (r, s')"
  then have "extends s s' []" by (simp add: ret_def extends_def)
  moreover have "calls [] \<subseteq> R" by (simp add: calls_simps)
  ultimately show "\<exists>evs. extends s s' evs \<and> calls evs \<subseteq> R" by blast
qed

lemma confined_throw: "confined R (throw e)"
proof (rule confinedI)
  fix s :: run_state and r :: "js_error + 'a" and s' assume "throw e s = (r, s')"
  then have "extends s s' []" by (simp add: throw_def extends_def)
  moreover have "calls [] \<subseteq> R" by (simp add: calls_simps)
  ultimately show "\<exists>evs. extends s s' evs \<and> calls evs \<subseteq> R" by blast
qed

lemma confined_console: "confined R (console lv l args)"
proof (rule confinedI)
  fix s r s' assume "console lv l args s = (r, s')"
  then have "extends s s' [Console lv l args]" by (auto simp: console_def extends_def)
  moreover have "calls [Console lv l args] \<subseteq> R" by (simp add: calls_simps)
  ultimately show "\<exists>evs. extends s s' evs \<and> calls evs \<subseteq> R" by blast
qed

lemma confined_call_val:
  assumes "n \<in> R" shows "confined R (call_val env n)"
proof (rule confinedI)
  fix s r s' assume "call_val env n s = (r, s')"
  then have "extends s s' [Call n]" by (auto simp: call_val_def extends_def)
  moreover have "calls [Call n] \<subseteq> R" using assms by (simp add: calls_simps)
  ultimately show "\<exists>evs. extends s s' evs \<and> calls evs \<subseteq> R" by blast
qed

lemma confined_seq:
  assumes "confined R m" and "\<And>v. confined R (f v)"
  shows "confined R (seq m f)"
proof (rule confinedI)
  fix s r s' assume run: "seq m f s = (r, s')"
  obtain r1 s1 where m: "m s = (r1, s1)" by (cases "m s")
  from confinedD [OF assms(1) m] obtain evs1 where 1: "extends s s1 evs1" "calls evs1 \<subseteq> R"
    by blast
  show "\<exists>evs. extends s s' evs \<and> calls evs \<subseteq> R"
  proof (cases r1)
    case (Inl e)
    then have "s' = s1" using run m by (simp add: seq_def)
    then show ?thesis using 1 by blast
  next
    case (Inr v)
    then have "f v s1 = (r, s')" using run m by (simp add: seq_def)
    from confinedD [OF assms(2) this] obtain evs2 where 2: "extends s1 s' evs2" "calls evs2 \<subseteq> R"
      by blast
    have "extends s s' (evs1 @ evs2)" using 1(1) 2(1) by (rule extends_trans)
    moreover have "calls (evs1 @ evs2) \<subseteq> R" using 1(2) 2(2) by (simp add: calls_simps)
    ultimately show ?thesis by blast
  qed
qed

lemma confined_call: "n \<in> R \<Longrightarrow> confined R (call env n)"
  unfolding call_def by (intro confined_seq confined_call_val confined_ret)

lemma confined_block_Nil: "confined R (block [])"
  by (simp add: confined_ret)

lemma confined_block_Cons: "confined R m \<Longrightarrow> confined R (block ms) \<Longrightarrow> confined R (block (m # ms))"
  by (simp add: confined_seq)

lemma confined_if_do: "(b \<Longrightarrow> confined R m) \<Longrightarrow> confined R (if_do b m)"
  by (simp add: if_do_def confined_ret)

lemma confined_try_catch:
  assumes "confined R m" and "\<And>e. confined R (h e)"
  shows "confined R (try_catch m h)"
proof (rule confinedI)
  fix s r s' assume run: "try_catch m h s = (r, s')"
  obtain r1 s1 where m: "m s = (r1, s1)" by (cases "m s")
  from confinedD [OF assms(1) m] obtain evs1 where 1: "extends s s1 evs1" "calls evs1 \<subseteq> R"
    by blast
  show "\<exists>evs. extends s s' evs \<and> calls evs \<subseteq> R"
  proof (cases r1)
    case (Inr v)
    then have "s' = s1" using run m by (simp add: try_catch_def)
    then show ?thesis using 1 by blast
  next
    case (Inl e)
    then have "h e s1 = (r, s')" using run m by (simp add: try_catch_def)
    from confinedD [OF assms(2) this] obtain evs2 where 2: "extends s1 s' evs2" "calls evs2 \<subseteq> R"
      by blast
    have "extends s s' (evs1 @ evs2)" using 1(1) 2(1) by (rule extends_trans)
    moreover have "calls (evs1 @ evs2) \<subseteq> R" using 1(2) 2(2) by (simp add: calls_simps)
    ultimately show ?thesis by blast
  qed
qed

lemma sound_call_val:
  assumes "n \<noteq> 188"
  shows "sound env R (call_val env n)"
proof (rule soundI)
  fix s r s' assume run: "call_val env n s = (r, s')"
  then have "extends s s' [Call n]" by (auto simp: call_val_def extends_def)
  moreover have "outcome env n = r" using run by (simp add: call_val_def)
  then have "\<not> isl r \<longrightarrow> calls [Call n] \<subseteq> R \<union> passed env"
    using assms by (cases r) (simp_all add: calls_simps passed_def)
  ultimately show "\<exists>evs. extends s s' evs \<and> (\<not> isl r \<longrightarrow> calls evs \<subseteq> R \<union> passed env)"
    by blast
qed

text \<open>Line 188 and the test that follows it: a truthy banner text ends in a throw.\<close>

lemma sound_banner_check:
  "sound env R
     (seq (call_val env 188) (\<lambda>hasError.
        if_do (truthy hasError) (block [console lv l (args hasError), throw (err hasError)])))"
proof (rule soundI)
  fix s r s'
  assume run: "seq (call_val env 188) (\<lambda>hasError.
        if_do (truthy hasError) (block [console lv l (args hasError), throw (err hasError)])) s
      = (r, s')"
  show "\<exists>evs. extends s s' evs \<and> (\<not> isl r \<longrightarrow> calls evs \<subseteq> R \<union> passed env)"
  proof (cases "outcome env 188")
    case (Inl e)
    then have "isl r" "extends s s' [Call 188]"
      using run by (auto simp add: seq_def call_val_def extends_def)
    then show ?thesis by (intro exI [of _ "[Call 188]"]) simp
  next
    case (Inr v)
    show ?thesis
    proof (cases "truthy v")
      case True
      then have "isl r" "extends s s' [Call 188, Console lv l (args v)]"
        using run Inr
        by (auto simp add: seq_def call_val_def if_do_def console_def throw_def extends_def)
      then show ?thesis by (intro exI [of _ "[Call 188, Console lv l (args v)]"]) simp
    next
      case False
      then have "extends s s' [Call 188]"
        using run Inr by (auto simp add: seq_def call_val_def if_do_def ret_def extends_def)
      moreover have "188 \<in> passed env" using Inr False by (simp add: passed_def)
      then have "calls [Call 188] \<subseteq> R \<union> passed env" by (simp add: calls_simps)
      ultimately show ?thesis by (intro exI [of _ "[Call 188]"]) simp
    qed
  qed
qed

lemma sound_seq:
  assumes "sound env R m" and "\<And>v. sound env R (f v)"
  shows "sound env R (seq m f)"
proof (rule soundI)
  fix s r s' assume run: "seq m f s = (r, s')"
  obtain r1 s1 where m: "m s = (r1, s1)" by (cases "m s")
  from soundD [OF assms(1) m] obtain evs1 where
    1: "extends s s1 evs1" and c1: "\<not> isl r1 \<longrightarrow> calls evs1 \<subseteq> R \<union> passed env"
    by (elim exE conjE)
  show "\<exists>evs. extends s s' evs \<and> (\<not> isl r \<longrightarrow> calls evs \<subseteq> R \<union> passed env)"
  proof (cases r1)
    case (Inl e)
    then have "s' = s1" "isl r" using run m by (auto simp add: seq_def)
    then show ?thesis using 1 by (intro exI [of _ evs1]) simp
  next
    case (Inr v)
    then have "f v s1 = (r, s')" using run m by (simp add: seq_def)
    from soundD [OF assms(2) this] obtain evs2 where
      2: "extends s1 s' evs2" and c2: "\<not> isl r \<longrightarrow> calls evs2 \<subseteq> R \<union> passed env"
      by (elim exE conjE)
    have a: "extends s s' (evs1 @ evs2)" using 1 2 by (rule extends_trans)
    have "calls evs1 \<subseteq> R \<union> passed env" using c1 Inr by simp
    then have b: "\<not> isl r \<longrightarrow> calls (evs1 @ evs2) \<subseteq> R \<union> passed env"
      using c2 by (simp add: calls_simps)
    show ?thesis using a b by (intro exI [of _ "evs1 @ evs2"]) simp
  qed
qed

lemma sound_call: "n \<noteq> 188 \<Longrightarrow> sound env R (call env n)"
  unfolding call_def by (intro sound_seq sound_call_val confined_sound confined_ret)

lemma sound_call_on: "n \<noteq> 188 \<Longrightarrow> sound env R (call_on receiver env n)"
  unfolding call_on_def by (simp add: sound_call confined_sound confined_throw)

lemma sound_console: "sound env R (console lv l args)"
  by (intro confined_sound confined_console)

lemma sound_block_Nil: "sound env R (block [])"
  by (simp add: confined_sound confined_ret)

lemma sound_block_Cons: "sound env R m \<Longrightarrow> sound env R (block ms) \<Longrightarrow> sound env R (block (m # ms))"
  by (simp add: sound_seq)

lemma sound_if_do: "(b \<Longrightarrow> sound env R m) \<Longrightarrow> sound env R (if_do b m)"
  by (simp add: if_do_def confined_sound confined_ret)

text \<open>A handler that logs and throws again: the try statement completes only if its block did.\<close>

lemma sound_try_rethrow:
  assumes "sound env R m"
  shows "sound env R (try_catch m (\<lambda>error. block [console lv l (args error), throw error]))"
proof (rule soundI)
  fix s r s'
  assume run: "try_catch m (\<lambda>error. block [console lv l (args error), throw error]) s = (r, s')"
  obtain r1 s1 where m: "m s = (r1, s1)" by (cases "m s")
  from soundD [OF assms(1) m] obtain evs1 where
    1: "extends s s1 evs1" and c1: "\<not> isl r1 \<longrightarrow> calls evs1 \<subseteq> R \<union> passed env"
    by (elim exE conjE)
  show "\<exists>evs. extends s s' evs \<and> (\<not> isl r \<longrightarrow> calls evs \<subseteq> R \<union> passed env)"
  proof (cases r1)
    case (Inr v)
    then have "s' = s1" "r = r1" using run m by (auto simp add: try_catch_def)
    then show ?thesis using 1 c1 by (intro exI [of _ evs1]) simp
  next
    case (Inl e)
    then have h: "block [console lv l (args e), throw e] s1 = (r, s')"
      using run m by (simp add: try_catch_def)
    have r: "isl r" using h by (auto simp add: seq_def console_def throw_def)
    have "extends s1 s' [Console lv l (args e)]"
      using h by (auto simp add: seq_def console_def throw_def extends_def)
    with 1 have "extends s s' (evs1 @ [Console lv l (args e)])" by (rule extends_trans)
    then show ?thesis using r by (intro exI [of _ "evs1 @ [Console lv l (args e)]"]) simp
  qed
qed

text \<open>A handler that recovers: the calls of the block are then confined to the recoverable lines.\<close>

lemma sound_try_recover:
  assumes "confined R m" and "\<And>e. sound env R (h e)"
  shows "sound env R (try_catch m h)"
proof (rule soundI)
  fix s r s' assume run: "try_catch m h s = (r, s')"
  obtain r1 s1 where m: "m s = (r1, s1)" by (cases "m s")
  from confinedD [OF assms(1) m] obtain evs1 where 1: "extends s s1 evs1" and c1: "calls evs1 \<subseteq> R"
    by (elim exE conjE)
  show "\<exists>evs. extends s s' evs \<and> (\<not> isl r \<longrightarrow> calls evs \<subseteq> R \<union> passed env)"
  proof (cases r1)
    case (Inr v)
    then have "s' = s1" using run m by (auto simp add: try_catch_def)
    moreover have "calls evs1 \<subseteq> R \<union> passed env" using c1 by (rule le_supI1)
    ultimately show ?thesis using 1 by (intro exI [of _ evs1]) simp
  next
    case (Inl e)
    then have "h e s1 = (r, s')" using run m by (simp add: try_catch_def)
    from soundD [OF assms(2) this] obtain evs2 where
      2: "extends s1 s' evs2" and c2: "\<not> isl r \<longrightarrow> calls evs2 \<subseteq> R \<union> passed env"
      by (elim exE conjE)
    have a: "extends s s' (evs1 @ evs2)" using 1 2 by (rule extends_trans)
    have "calls evs1 \<subseteq> R \<union> passed env" using c1 by (rule le_supI1)
    then have b: "\<not> isl r \<longrightarrow> calls (evs1 @ evs2) \<subseteq> R \<union> passed env"
      using c2 by (simp add: calls_simps)
    show ?thesis using a b by (intro exI [of _ "evs1 @ evs2"]) simp
  qed
qed

lemma sound_ret: "sound env R (ret v)"
  by (intro confined_sound confined_ret)

lemma sound_throw: "sound env R (throw e)"
  by (intro confined_sound confined_throw)

lemma sound_if: "sound env R a \<Longrightarrow> sound env R b \<Longrightarrow> sound env R (if c then a else b)"
  by simp

lemmas sound_steps = sound_block_Nil sound_block_Cons sound_call sound_console sound_call_on
  sound_banner_check sound_call_val sound_seq sound_if_do sound_if sound_ret sound_throw
  sound_try_rethrow

lemmas confined_steps = confined_block_Nil confined_block_Cons confined_console
  confined_seq confined_if_do confined_ret confined_throw

lemma locally_handled_lines:
  "45 \<in> locally_handled" "77 \<in> locally_handled" "84 \<in> locally_handled"
  "86 \<in> locally_handled" "159 \<in> locally_handled" "219 \<in> locally_handled"
  "220 \<in> locally_handled"
  by (simp_all add: locally_handled_def)

lemmas confined_locally_handled =
  locally_handled_lines [THEN confined_call] locally_handled_lines [THEN confined_call_val]

lemma sound_prepare_page: "sound env locally_handled (prepare_page env)"
  unfolding prepare_page_def
  by (intro sound_steps sound_try_recover confined_steps confined_locally_handled) simp_all

lemma sound_signup: "sound env locally_handled (signup env)"
  unfolding signup_def
  by (intro sound_steps sound_try_recover confined_steps confined_locally_handled) simp_all

lemma sound_login: "sound env locally_handled (login env)"
  unfolding login_def
  by (intro sound_steps sound_try_recover confined_steps confined_locally_handled) simp_all

lemma sound_watch_and_logout: "sound env locally_handled (watch_and_logout n env)"
  unfolding watch_and_logout_def
  by (intro sound_steps sound_try_recover confined_steps confined_locally_handled) simp_all

subsection \<open>The three blocks of the function\<close>

lemma session_cleanup_result:
  "session_cleanup env s = (Inr (), s \<lparr> trace := trace s @ release_events env (session s) \<rparr>)"
  by (simp add: session_cleanup_def release_events_def if_do_def try_catch_def sessions_update_def
      console_def ret_def split: option.splits sum.splits)

lemma acquire_geolocation_throws:
  assumes "outcome env 16 = Inl e"
  shows "acquire n t env s = (Inl e, s \<lparr> trace := trace s @ acquire_events n t env \<rparr>)"
  using assms
  by (simp add: acquire_def acquire_events_def seq_def console_def call_def call_val_def)

lemma acquire_create_throws:
  assumes "outcome env 16 = Inr v" and "create_result env = Inl e"
  shows "acquire n t env s = (Inl e, s \<lparr> trace := trace s @ acquire_events n t env \<rparr>)"
  using assms
  by (simp add: acquire_def acquire_events_def seq_def console_def call_def call_val_def
      sessions_create_def ret_def)

lemma acquire_resolves:
  assumes "outcome env 16 = Inr v" and "create_result env = Inr created"
  shows "acquire n t env s
     = (Inr (), s \<lparr> session := Some created, trace := trace s @ acquire_events n t env \<rparr>)"
  using assms
  by (simp add: acquire_def acquire_events_def seq_def console_def call_def call_val_def
      sessions_create_def ret_def)

lemma sound_journey:
  "sound env locally_handled (block [prepare_page env, signup env, login env, watch_and_logout n env])"
  by (intro sound_block_Cons sound_block_Nil sound_prepare_page sound_signup sound_login
      sound_watch_and_logout)

text \<open>What the try block leaves behind, from the state in which a run starts.\<close>

lemma session_body_cases:
  obtains
    (not_acquired) e where
      "isl (outcome env 16) \<or> isl (create_result env)"
      "session_body n t env \<lparr> session = None, trace = [] \<rparr>
         = (Inl e, \<lparr> session = None, trace = acquire_events n t env \<rparr>)"
  | (acquired) created r evs where
      "\<not> isl (outcome env 16)" "create_result env = Inr created"
      "session_body n t env \<lparr> session = None, trace = [] \<rparr>
         = (r, \<lparr> session = Some created, trace = acquire_events n t env @ evs \<rparr>)"
      "SessionsCreate \<notin> set evs" "\<forall>sid. SessionsUpdate sid \<notin> set evs"
      "r = Inr True \<or> isl r"
      "\<not> isl r \<Longrightarrow> calls evs \<subseteq> locally_handled \<union> passed env"
proof (cases "isl (outcome env 16) \<or> isl (create_result env)")
  case True
  have "\<exists>e. acquire n t env \<lparr> session = None, trace = [] \<rparr>
       = (Inl e, \<lparr> session = None, trace = acquire_events n t env \<rparr>)"
  proof (cases "outcome env 16")
    case (Inl e)
    then show ?thesis by (simp add: acquire_geolocation_throws)
  next
    case (Inr v)
    with True obtain e where "create_result env = Inl e" by (auto simp add: isl_def)
    with Inr show ?thesis by (simp add: acquire_create_throws)
  qed
  then obtain e where
    "acquire n t env \<lparr> session = None, trace = [] \<rparr>
       = (Inl e, \<lparr> session = None, trace = acquire_events n t env \<rparr>)" ..
  then have "session_body n t env \<lparr> session = None, trace = [] \<rparr>
         = (Inl e, \<lparr> session = None, trace = acquire_events n t env \<rparr>)"
    by (simp add: session_body_def seq_def)
  with True show ?thesis by (rule not_acquired)
next
  case False
  then obtain v created where ok: "outcome env 16 = Inr v" "create_result env = Inr created"
    by (cases "outcome env 16"; cases "create_result env") simp_all
  let ?s1 = "\<lparr> session = Some created, trace = acquire_events n t env \<rparr>"
  let ?journey = "block [prepare_page env, signup env, login env, watch_and_logout n env]"
  have a: "acquire n t env \<lparr> session = None, trace = [] \<rparr> = (Inr (), ?s1)"
    using ok by (simp add: acquire_resolves)
  obtain r1 s2 where j: "?journey ?s1 = (r1, s2)" by (cases "?journey ?s1")
  from soundD [OF sound_journey j] obtain evs where
    1: "extends ?s1 s2 evs" and c1: "\<not> isl r1 \<longrightarrow> calls evs \<subseteq> locally_handled \<union> passed env"
    by (elim exE conjE)
  have s2: "s2 = \<lparr> session = Some created, trace = acquire_events n t env @ evs \<rparr>"
    using 1 by (cases s2) (simp add: extends_def)
  have body: "session_body n t env \<lparr> session = None, trace = [] \<rparr>
      = (case r1 of Inl e \<Rightarrow> (Inl e, s2) | Inr _ \<Rightarrow> (Inr True, s2))"
    using a j by (simp add: session_body_def seq_def ret_def split: sum.splits)
  define r :: "js_error + bool" where "r = (case r1 of Inl e \<Rightarrow> Inl e | Inr _ \<Rightarrow> Inr True)"
  have "session_body n t env \<lparr> session = None, trace = [] \<rparr>
         = (r, \<lparr> session = Some created, trace = acquire_events n t env @ evs \<rparr>)"
    using body s2 by (simp add: r_def split: sum.splits)
  moreover have "SessionsCreate \<notin> set evs" "\<forall>sid. SessionsUpdate sid \<notin> set evs"
    using 1 by (simp_all add: extends_def)
  moreover have "r = Inr True \<or> isl r" by (simp add: r_def split: sum.splits)
  moreover have "\<not> isl r \<Longrightarrow> calls evs \<subseteq> locally_handled \<union> passed env"
    using c1 by (simp add: r_def split: sum.splits)
  ultimately show ?thesis using False ok(2) by (intro acquired [of created r evs]) simp_all
qed


lemma runSession_unfold:
  assumes "session_body n t env \<lparr> session = None, trace = [] \<rparr> = (r, s)"
  shows "runSession n t env
     = (Inr (returned r), trace s @ failure_report n r @ release_events env (session s))"
  using assms
  by (cases r)
    (simp_all add: runSession_def runSession_stmt_def try_catch_finally_def try_catch_def
      session_handler_def seq_def console_def ret_def session_cleanup_result
      failure_report_def returned_def)

lemma call_val_ignores_update: "call_val (env \<lparr> update_result := u \<rparr>) = call_val env"
  by (intro ext) (simp add: call_val_def)

lemma call_ignores_update: "call (env \<lparr> update_result := u \<rparr>) = call env"
  by (intro ext) (simp add: call_def call_val_ignores_update)

lemma call_on_ignores_update: "call_on p (env \<lparr> update_result := u \<rparr>) = call_on p env"
  by (intro ext) (simp add: call_on_def call_ignores_update)

lemma sessions_create_ignores_update:
  "sessions_create (env \<lparr> update_result := u \<rparr>) = sessions_create env"
  by (intro ext) (simp add: sessions_create_def)

lemmas ignores_update = call_val_ignores_update call_ignores_update call_on_ignores_update
  sessions_create_ignores_update

lemma session_body_ignores_update:
  "session_body n t (env \<lparr> update_result := u \<rparr>) = session_body n t env"
  by (simp add: session_body_def acquire_def prepare_page_def signup_def login_def
      watch_and_logout_def ignores_update cong: if_cong)

lemmas run_defs = runSession_def runSession_stmt_def try_catch_finally_def try_catch_def
      session_body_def acquire_def prepare_page_def signup_def login_def watch_and_logout_def
      session_handler_def session_cleanup_def seq_def console_def call_def call_val_def call_on_def
      sessions_create_def sessions_update_def ret_def throw_def if_do_def

lemma release_events_acquired:
  assumes "session_id created \<noteq> []"
  shows "release_events (env \<lparr> update_result := u \<rparr>) (Some created)
     = SessionsUpdate (session_id created) #
         (case u of
            Inl e \<Rightarrow> [Console Warn 292 [Text (session_id created), Text (message e)]]
          | Inr _ \<Rightarrow> [])"
  using assms by (simp add: release_events_def)

lemma no_update_in_acquire_events: "SessionsUpdate sid \<notin> set (acquire_events n t env)"
  by (simp add: acquire_events_def)

lemma no_update_in_failure_report: "SessionsUpdate sid \<notin> set (failure_report n r)"
  by (cases r) (simp_all add: failure_report_def)

lemma no_create_in_failure_report: "SessionsCreate \<notin> set (failure_report n r)"
  by (cases r) (simp_all add: failure_report_def)



lemma no_create_in_release_events: "SessionsCreate \<notin> set (release_events env held)"
  by (simp add: release_events_def split: option.splits sum.splits)

subsection \<open>Release of the remote session\<close>

text \<open>
  Claim C1. Take a run in which a remote session was acquired: \<^verbatim>\<open>bb.sessions.create\<close> was
  called and resolved to a session object, which carries a non-empty identifier (the test
  \<^verbatim>\<open>session?.id\<close> of the finally block). Then, whatever the release request \<open>u\<close> does, the
  run returns the same boolean \<open>b\<close> and never throws; its record is a fixed prefix without
  any release request, then exactly one release request for that session, then a warning
  with the message of the release error if the request failed, and nothing else. The
  prefix, which holds the lines of the catch block, does not depend on \<open>u\<close>: a failed
  release is never what the run reports as its failure.
\<close>

theorem runSession_releases_once:
  assumes "SessionsCreate \<in> set (snd (runSession n t env))"
    and "create_result env = Inr created"
    and "session_id created \<noteq> []"
  shows "\<exists>b pre. (\<forall>sid. SessionsUpdate sid \<notin> set pre) \<and>
           (\<forall>u. runSession n t (env \<lparr> update_result := u \<rparr>) =
              (Inr b, pre @ SessionsUpdate (session_id created) #
                 (case u of
                    Inl e \<Rightarrow> [Console Warn 292 [Text (session_id created), Text (message e)]]
                  | Inr _ \<Rightarrow> [])))"
proof (cases rule: session_body_cases [of env n t])
  case (not_acquired e)
  then have "isl (outcome env 16)" using assms(2) by simp
  moreover have "runSession n t env
      = (Inr False, acquire_events n t env @ failure_report n (Inl e))"
    using runSession_unfold [OF not_acquired(2)] by (simp add: returned_def release_events_def)
  ultimately have "SessionsCreate \<notin> set (snd (runSession n t env))"
    by (simp add: acquire_events_def failure_report_def)
  with assms(1) show ?thesis by simp
next
  case (acquired created' r evs)
  then have same: "created' = created" using assms(2) by simp
  let ?pre = "acquire_events n t env @ evs @ failure_report n r"
  have "\<forall>sid. SessionsUpdate sid \<notin> set ?pre"
    using acquired(5) by (simp add: no_update_in_acquire_events no_update_in_failure_report)
  moreover have "\<forall>u. runSession n t (env \<lparr> update_result := u \<rparr>) =
      (Inr (returned r), ?pre @ SessionsUpdate (session_id created) #
         (case u of
            Inl e \<Rightarrow> [Console Warn 292 [Text (session_id created), Text (message e)]]
          | Inr _ \<Rightarrow> []))"
  proof
    fix u
    have "session_body n t (env \<lparr> update_result := u \<rparr>) \<lparr> session = None, trace = [] \<rparr>
        = (r, \<lparr> session = Some created, trace = acquire_events n t env @ evs \<rparr>)"
      using acquired(3) same by (simp add: session_body_ignores_update)
    from runSession_unfold [OF this]
    show "runSession n t (env \<lparr> update_result := u \<rparr>) =
      (Inr (returned r), ?pre @ SessionsUpdate (session_id created) #
         (case u of
            Inl e \<Rightarrow> [Console Warn 292 [Text (session_id created), Text (message e)]]
          | Inr _ \<Rightarrow> []))"
      by (simp add: release_events_acquired [OF assms(3)])
  qed
  ultimately show ?thesis by blast
qed

theorem runSession_releases_once_witness:
  "runSession 3 5 navigation_fails =
     (Inr False,
      [Console Log 15 [Number 3, Number 5], Call 16, SessionsCreate, Call 32,
       Console Log 33 [], Call 35, Call 36, Call 37, Call 40, Call 54, Call 55,
       Console Log 64 [], Call 65, Console Log 66 [], Call 70,
       Console Err 106 [Text ''Timeout 60000ms exceeded''],
       Console Err 281 [Number 3, Text ''Timeout 60000ms exceeded''],
       SessionsUpdate ''a1b2'', Console Warn 292 [Text ''a1b2'', Text ''503'']])
   \<and> (\<exists>b pre. (\<forall>sid. SessionsUpdate sid \<notin> set pre) \<and>
           (\<forall>u. runSession 3 5 (navigation_fails \<lparr> update_result := u \<rparr>) =
              (Inr b, pre @ SessionsUpdate ''a1b2'' #
                 (case u of
                    Inl e \<Rightarrow> [Console Warn 292 [Text ''a1b2'', Text (message e)]]
                  | Inr _ \<Rightarrow> []))))"
proof -
  have run: "runSession 3 5 navigation_fails =
     (Inr False,
      [Console Log 15 [Number 3, Number 5], Call 16, SessionsCreate, Call 32,
       Console Log 33 [], Call 35, Call 36, Call 37, Call 40, Call 54, Call 55,
       Console Log 64 [], Call 65, Console Log 66 [], Call 70,
       Console Err 106 [Text ''Timeout 60000ms exceeded''],
       Console Err 281 [Number 3, Text ''Timeout 60000ms exceeded''],
       SessionsUpdate ''a1b2'', Console Warn 292 [Text ''a1b2'', Text ''503'']])"
    by (simp add: run_defs navigation_fails_def)
  have called: "SessionsCreate \<in> set (snd (runSession 3 5 navigation_fails))"
    by (simp add: run)
  have created: "create_result navigation_fails
      = Inr \<lparr> session_id = ''a1b2'', connectUrl = ''wss://connect'' \<rparr>"
    by (simp add: navigation_fails_def)
  show ?thesis
    using run runSession_releases_once [OF called created] by (simp cong: sum.case_cong)
qed

subsection \<open>Failures of a run\<close>


lemma SessionsCreate_in_runSession_record:
  assumes "session_body n t env \<lparr> session = None, trace = [] \<rparr> = (r, s)"
  shows "SessionsCreate \<in> set (snd (runSession n t env)) = (SessionsCreate \<in> set (trace s))"
  using runSession_unfold [OF assms]
  by (simp add: no_create_in_failure_report no_create_in_release_events)

lemma runSession_result:
  assumes "session_body n t env \<lparr> session = None, trace = [] \<rparr> = (r, s)"
  shows "fst (runSession n t env) = Inr (returned r)"
  using runSession_unfold [OF assms] by simp
































subsection \<open>The copy in the combined server file\<close>

text \<open>
  Claim C9. In the copy of the run loop in the combined server file, \<^verbatim>\<open>sessionCount\<close> is
  not in scope: for every session number and every environment, the first statement of the
  try block throws a reference error, the outer handler logs it and the function returns
  \<^verbatim>\<open>false\<close>; the record of the run holds that one console line only, so no remote session
  is created and none is released.
\<close>

theorem combined_runSession_never_acquires:
  "fst (combined_acquire n env s) = Inl (Thrown ReferenceError ''sessionCount is not defined'')
   \<and> combined_runSession n env
       = (Inr False, [Console Err 281 [Number n, Text ''sessionCount is not defined'']])
   \<and> SessionsCreate \<notin> set (snd (combined_runSession n env))
   \<and> (\<forall>sid. SessionsUpdate sid \<notin> set (snd (combined_runSession n env)))"
proof -
  have scope: "''console'' \<in> set combined_runSession_scope"
    "''sessionNumber'' \<in> set combined_runSession_scope"
    "''sessionCount'' \<notin> set combined_runSession_scope"
    by (simp_all add: combined_runSession_scope_def combined_runSession_locals_def
        combined_module_bindings_def runtime_globals_def)
  have first: "combined_acquire n env s
      = (Inl (Thrown ReferenceError ''sessionCount is not defined''), s)" for s
    using scope by (simp add: combined_acquire_def read_identifier_def seq_def ret_def throw_def)
  have run: "combined_runSession n env
       = (Inr False, [Console Err 281 [Number n, Text ''sessionCount is not defined'']])"
    by (simp add: combined_runSession_def combined_session_body_def first
        try_catch_finally_def try_catch_def session_handler_def session_cleanup_def
        seq_def console_def ret_def)
  show ?thesis by (simp add: first run)
qed

section \<open>Properties of the batch runner\<close>

subsection \<open>What each piece of the function does\<close>

lemma iteration_result:
  "iteration env n i results s =
     (Inr (results @ returned_values env i),
      s \<lparr> currentJobStats :=
           (currentJobStats s)
             \<lparr> completedSessions := completedSessions (currentJobStats s)
                  + successes (returned_values env i),
               errors := errors (currentJobStats s) @ thrown_errors env i \<rparr>,
         effects := effects s @ run_effects env n i \<rparr>)"
proof (cases "run_result env i")
  case (Inl e)
  then show ?thesis
    by (simp add: iteration_def record_run_def try_catch_def seq_def call_runSession_def
        resume_def push_error_def pause_def set_timeout_def ret_def returned_values_def
        thrown_errors_def run_effects_def successes_def pushed_def recorded_def)
next
  case (Inr b)
  then show ?thesis
    by (cases b)
      (simp_all add: iteration_def record_run_def try_catch_def seq_def call_runSession_def
        resume_def count_completed_def if_do_def pause_def set_timeout_def ret_def
        returned_values_def thrown_errors_def run_effects_def successes_def pushed_def
        recorded_def)
qed

lemma successes_append: "successes (xs @ ys) = successes xs + successes ys"
  by (simp add: successes_def)

lemma after_loop_empty: "sessionCount < i \<Longrightarrow> after_loop env sessionCount i s = s"
  by (simp add: after_loop_def successes_def)

lemma loop_result:
  "loop env n i results s =
     (Inr (results @ concat (map (returned_values env) [i..n])), after_loop env n i s)"
proof (induction env n i results s rule: loop.induct)
  case (1 env n i results s)
  show ?case
  proof (cases "i \<le> n")
    case False
    then show ?thesis by (subst loop.simps) (simp add: after_loop_empty)
  next
    case True
    have up: "[i..n] = i # [i + 1..n]" using True by (simp add: upto_rec1)
    let ?s1 = "s \<lparr> currentJobStats :=
           (currentJobStats s)
             \<lparr> completedSessions := completedSessions (currentJobStats s)
                  + successes (returned_values env i),
               errors := errors (currentJobStats s) @ thrown_errors env i \<rparr>,
         effects := effects s @ run_effects env n i \<rparr>"
    have "loop env n i results s = loop env n (i + 1) (results @ returned_values env i) ?s1"
      using True by (subst loop.simps) (simp add: iteration_result)
    also have "\<dots> = (Inr ((results @ returned_values env i)
          @ concat (map (returned_values env) [i + 1..n])), after_loop env n (i + 1) ?s1)"
      using True by (intro "1.IH" [OF True]) (simp_all add: iteration_result)
    also have "after_loop env n (i + 1) ?s1 = after_loop env n i s"
      by (simp add: after_loop_def up successes_append)
    finally show ?thesis by (simp add: up)
  qed
qed


lemma record_run_result:
  "record_run i results settled s = (Inr (results @ pushed settled), settle i settled s)"
proof (cases settled)
  case (Inl e)
  then show ?thesis
    by (simp add: record_run_def try_catch_def seq_def resume_def push_error_def ret_def
        settle_def pushed_def recorded_def successes_def)
next
  case (Inr b)
  then show ?thesis
    by (cases b)
      (simp_all add: record_run_def try_catch_def seq_def resume_def count_completed_def
        if_do_def ret_def settle_def pushed_def recorded_def successes_def)
qed

lemma begin_batch_result:
  "begin_batch type (Options sessionCount maxConcurrent) env s
     = (Inr (chosen_count sessionCount (count_draw env)),
        batch_begun type (chosen_count sessionCount (count_draw env)) env s)"
  by (cases sessionCount)
    (simp_all add: begin_batch_def seq_def set_running_def choose_count_def reset_stats_def
      print_def ret_def chosen_count_def batch_begun_def)

lemma begin_batch_null:
  "begin_batch type NullOptions env s
     = (Inl (Thrown TypeError ''Cannot read properties of null''), s \<lparr> isJobRunning := True \<rparr>)"
  by (simp add: begin_batch_def seq_def set_running_def choose_count_def throw_def)

lemma finish_returned:
  "try_catch_finally (ret b) batch_handler batch_finally s = (Inr b, s \<lparr> isJobRunning := False \<rparr>)"
  by (simp add: try_catch_finally_def try_catch_def ret_def batch_finally_def set_running_def)

lemma finish_thrown:
  "try_catch_finally (throw e) batch_handler batch_finally s = (Inr False, batch_failed e s)"
  by (simp add: try_catch_finally_def try_catch_def throw_def batch_handler_def seq_def print_def
      push_error_def ret_def batch_finally_def set_running_def batch_failed_def)

lemma end_batch_result:
  "end_batch n results s
     = (Inr True, s \<lparr> effects := effects s @ [Printed Log 127 [Number (successes results), Number n]] \<rparr>)"
  by (simp add: end_batch_def seq_def print_def ret_def successes_def)

lemma runScheduledSessions_skips:
  assumes "isJobRunning s"
  shows "runScheduledSessions type opts env s
     = (Inr False, s \<lparr> effects := effects s @ [Printed Log 87 []] \<rparr>)"
  using assms by (simp add: runScheduledSessions_def seq_def print_def ret_def)

lemma runScheduledSessions_null:
  assumes "\<not> isJobRunning s"
  shows "runScheduledSessions type NullOptions env s
     = (Inr False, batch_failed (Thrown TypeError ''Cannot read properties of null'') s)"
  using assms
  by (simp add: runScheduledSessions_def try_catch_finally_def try_catch_def seq_def
      begin_batch_null batch_handler_def print_def push_error_def ret_def batch_finally_def
      set_running_def batch_failed_def)

lemma runScheduledSessions_runs:
  assumes "\<not> isJobRunning s" and "n = chosen_count sessionCount (count_draw env)"
  shows "runScheduledSessions type (Options sessionCount maxConcurrent) env s
     = (Inr True,
        batch_ended n (concat (map (returned_values env) [1..n]))
          (after_loop env n 1 (batch_begun type n env s)))"
  using assms
  by (simp add: runScheduledSessions_def try_catch_finally_def try_catch_def seq_def
      begin_batch_result loop_result end_batch_result batch_finally_def set_running_def
      batch_ended_def)

lemma loop_head_result:
  "loop_head n i results s =
     (if i \<le> n
      then (Inr (Inl (AwaitingRun i n results)),
            s \<lparr> effects := effects s @ [RunSessionCalled i n] \<rparr>)
      else (Inr (Inr True),
            s \<lparr> effects := effects s @ [Printed Log 127 [Number (successes results), Number n]] \<rparr>))"
  by (simp add: loop_head_def seq_def call_runSession_def ret_def end_batch_result)

lemma stretch_loop_head:
  "stretch (loop_head n i results) s =
     (if i \<le> n
      then (Inl (AwaitingRun i n results), s \<lparr> effects := effects s @ [RunSessionCalled i n] \<rparr>)
      else (Inr (Inr True), batch_ended n results s))"
  by (simp add: stretch_def loop_head_result finish_returned batch_ended_def)

lemma timeout_fired_result:
  "timeout_fired i n results s =
     (if i + 1 \<le> n
      then (Inl (AwaitingRun (i + 1) n results),
            s \<lparr> effects := effects s @ [RunSessionCalled (i + 1) n] \<rparr>)
      else (Inr (Inr True), batch_ended n results s))"
  by (simp add: timeout_fired_def stretch_loop_head)

lemma run_settled_result:
  "run_settled env i n results settled s =
     (Inl (AwaitingTimeout i n (results @ pushed settled)),
      (settle i settled s) \<lparr> effects := effects s @ [TimeoutSet (random_delay (delay_draw env i))] \<rparr>)"
  by (simp add: run_settled_def stretch_def seq_def record_run_result pause_def set_timeout_def
      ret_def settle_def)

lemma start_batch_busy:
  assumes "isJobRunning s"
  shows "start_batch type opts env s
     = (Inr (Inr False), s \<lparr> effects := effects s @ [Printed Log 87 []] \<rparr>)"
  using assms by (simp add: start_batch_def seq_def print_def ret_def)

lemma start_batch_null:
  assumes "\<not> isJobRunning s"
  shows "start_batch type NullOptions env s
     = (Inr (Inr False), batch_failed (Thrown TypeError ''Cannot read properties of null'') s)"
  using assms
  by (simp add: start_batch_def stretch_def seq_def begin_batch_null finish_thrown
      batch_failed_def)

lemma start_batch_idle:
  assumes "\<not> isJobRunning s" and "n = chosen_count sessionCount (count_draw env)"
  shows "start_batch type (Options sessionCount maxConcurrent) env s =
     (if 1 \<le> n
      then (Inl (AwaitingRun 1 n []),
            (batch_begun type n env s)
              \<lparr> effects := effects (batch_begun type n env s) @ [RunSessionCalled 1 n] \<rparr>)
      else (Inr (Inr True), batch_ended n [] (batch_begun type n env s)))"
  using assms
  by (simp add: start_batch_def stretch_def seq_def begin_batch_result loop_head_result
      finish_returned batch_ended_def)




lemma stats_after_loop_begun:
  "currentJobStats (after_loop env n 1 (batch_begun type n env s))
     = \<lparr> startTime = Some (clock env 96),
         completedSessions = successes (concat (map (returned_values env) [1..n])),
         totalSessions = n,
         errors = concat (map (thrown_errors env) [1..n]) \<rparr>"
  by (simp add: after_loop_def batch_begun_def)

lemma successes_returned_values:
  "successes (concat (map (returned_values env) js))
     = int (length (filter (\<lambda>j. run_result env j = Inr True) js))"
proof (induction js)
  case Nil
  then show ?case by (simp add: successes_def)
next
  case (Cons j js)
  have "successes (returned_values env j) = (if run_result env j = Inr True then 1 else 0)"
    by (cases "run_result env j") (auto simp add: returned_values_def pushed_def successes_def)
  then show ?case using Cons by (simp add: successes_append)
qed

lemma length_upto: "length [1..n] = nat n"
  by simp



subsection \<open>The run lock\<close>

lemma lock_inv_started: "lock_inv started"
  by (simp add: lock_inv_def started_def initial_server_def)

lemma lock_inv_respond: "lock_inv (respond r p) = lock_inv p"
  by (simp add: lock_inv_def respond_def)

lemma flag_batch_ended: "\<not> isJobRunning (batch_ended n results s)"
  by (simp add: batch_ended_def)

lemma flag_batch_failed: "\<not> isJobRunning (batch_failed e s)"
  by (simp add: batch_failed_def)

lemma flag_batch_begun: "isJobRunning (batch_begun type n env s)"
  by (simp add: batch_begun_def)

lemma lock_inv_invoke:
  assumes "lock_inv p"
  shows "lock_inv (invoke type opts env p)"
proof (cases "isJobRunning (server p)")
  case True
  then show ?thesis using assms by (simp add: invoke_def start_batch_busy lock_inv_def)
next
  case False
  then have idle: "pending p = []" using assms by (simp add: lock_inv_def)
  show ?thesis
  proof (cases opts)
    case NullOptions
    then show ?thesis
      using False idle by (simp add: invoke_def start_batch_null lock_inv_def flag_batch_failed)
  next
    case (Options sessionCount maxConcurrent)
    then show ?thesis
      using False idle
      by (simp add: invoke_def start_batch_idle lock_inv_def flag_batch_ended flag_batch_begun)
  qed
qed

lemma lock_inv_handle:
  assumes "lock_inv p"
  shows "lock_inv (handle API_KEY env req p)"
proof (cases req)
  case GetHealth
  then show ?thesis using assms by (simp add: handle_def lock_inv_respond)
next
  case (GetStatus header)
  then show ?thesis using assms by (simp add: handle_def lock_inv_respond)
next
  case (PostTrigger header sessionCount maxConcurrent)
  then show ?thesis
    using assms lock_inv_invoke [OF assms]
    by (simp add: handle_def lock_inv_respond Let_def)
qed

lemma lock_inv_run_settled:
  assumes "lock_inv p" and "k < length (pending p)"
  shows "lock_inv (advance k (run_settled env i n results settled (server p)) p)"
proof -
  have "isJobRunning (server p)" "length (pending p) = 1"
    using assms by (auto simp add: lock_inv_def split: if_splits)
  then show ?thesis
    by (simp add: advance_def run_settled_result lock_inv_def settle_def)
qed

lemma lock_inv_timeout_fired:
  assumes "lock_inv p" and "k < length (pending p)"
  shows "lock_inv (advance k (timeout_fired i n results (server p)) p)"
proof -
  have "isJobRunning (server p)" "length (pending p) = 1"
    using assms by (auto simp add: lock_inv_def split: if_splits)
  moreover from this assms(2) have "k = 0" by simp
  ultimately show ?thesis
    by (simp add: advance_def timeout_fired_result lock_inv_def flag_batch_ended)
qed

lemma lock_inv_occur:
  assumes "lock_inv p"
  shows "lock_inv (occur API_KEY env p h)"
proof (cases h)
  case (Arrives req)
  then show ?thesis using assms by (simp add: lock_inv_handle)
next
  case (Invoked type opts)
  then show ?thesis using assms by (simp add: lock_inv_invoke)
next
  case (RunSettles k settled)
  then show ?thesis
    using assms by (simp add: lock_inv_run_settled split: task.splits)
next
  case (TimeoutFires k)
  then show ?thesis
    using assms by (simp add: lock_inv_timeout_fired split: task.splits)
qed

lemma lock_inv_run_process:
  assumes "lock_inv p"
  shows "lock_inv (run_process API_KEY env p happenings)"
  using assms unfolding run_process_def
  by (induction happenings arbitrary: p) (simp_all add: lock_inv_occur)

text \<open>Runs are started only under the lock.\<close>

lemma attempts_invoke:
  assumes "attempts (effects (server (invoke type opts env p))) \<noteq> attempts (effects (server p))"
  shows "isJobRunning (server (invoke type opts env p))"
proof (cases "isJobRunning (server p)")
  case True
  then show ?thesis by (simp add: invoke_def start_batch_busy)
next
  case False
  show ?thesis
  proof (cases opts)
    case NullOptions
    then show ?thesis
      using False assms
      by (simp add: invoke_def start_batch_null batch_failed_def attempts_def)
  next
    case (Options sessionCount maxConcurrent)
    then show ?thesis
      using False assms
      by (simp add: invoke_def start_batch_idle batch_ended_def batch_begun_def attempts_def
          split: if_splits)
  qed
qed

lemma attempts_occur:
  assumes "lock_inv p"
    and "attempts (effects (server (occur API_KEY env p h))) \<noteq> attempts (effects (server p))"
  shows "isJobRunning (server (occur API_KEY env p h))"
proof (cases h)
  case (Arrives req)
  show ?thesis
  proof (cases req)
    case GetHealth
    then show ?thesis using assms(2) Arrives by (simp add: handle_def respond_def)
  next
    case (GetStatus header)
    then show ?thesis
      using assms(2) Arrives by (simp add: handle_def respond_def split: if_splits)
  next
    case (PostTrigger header sessionCount maxConcurrent)
    then show ?thesis
      using assms(2) Arrives attempts_invoke
      by (simp add: handle_def respond_def Let_def split: if_splits)
  qed
next
  case (Invoked type opts)
  then show ?thesis using assms(2) attempts_invoke by simp
next
  case (RunSettles k settled)
  then show ?thesis
    using assms(2)
    by (simp add: advance_def run_settled_result settle_def attempts_def
        split: if_splits task.splits)
next
  case (TimeoutFires k)
  show ?thesis
  proof (cases "k < length (pending p)")
    case False
    then show ?thesis using assms(2) TimeoutFires by simp
  next
    case True
    then have "isJobRunning (server p)" using assms(1) by (auto simp add: lock_inv_def split: if_splits)
    then show ?thesis
      using assms(2) TimeoutFires True
      by (simp add: advance_def timeout_fired_result batch_ended_def attempts_def
          split: if_splits task.splits)
  qed
qed

text \<open>
  Claim C3. The run lock keeps batches apart. In every state the process can reach from
  its start, by any sequence of requests, calls of the batch runner, settled runs and fired
  timers, at most one batch is suspended, and \<^verbatim>\<open>isJobRunning\<close> is set exactly when one is;
  whatever happens next, a call to \<^verbatim>\<open>runSession\<close> is made only with the lock set. For one
  execution of \<^verbatim>\<open>runScheduledSessions\<close>: when the loop is entered the lock is already set
  and no run has been attempted; an execution that started with the lock clear ends with the
  lock clear, whatever the options and however the runs settle (also when the try block
  throws); and an execution that finds the lock set returns \<^verbatim>\<open>false\<close> after one console
  line, leaving the lock set and the statistics as they were.
\<close>

theorem run_lock:
  "length (pending (run_process API_KEY env started happenings)) \<le> 1
   \<and> isJobRunning (server (run_process API_KEY env started happenings))
       = (pending (run_process API_KEY env started happenings) \<noteq> [])
   \<and> (attempts (effects (server (occur API_KEY env (run_process API_KEY env started happenings) h)))
         \<noteq> attempts (effects (server (run_process API_KEY env started happenings)))
        \<longrightarrow> isJobRunning (server (occur API_KEY env (run_process API_KEY env started happenings) h)))
   \<and> (\<not> isJobRunning s \<longrightarrow>
        (\<exists>n s1. begin_batch type (Options sessionCount maxConcurrent) env s = (Inr n, s1)
           \<and> isJobRunning s1 \<and> attempts (effects s1) = attempts (effects s)))
   \<and> (\<not> isJobRunning s \<longrightarrow> \<not> isJobRunning (snd (runScheduledSessions type opts env s)))
   \<and> (isJobRunning s \<longrightarrow>
        runScheduledSessions type opts env s
          = (Inr False, s \<lparr> effects := effects s @ [Printed Log 87 []] \<rparr>))"
proof -
  let ?p = "run_process API_KEY env started happenings"
  have inv: "lock_inv ?p" using lock_inv_started by (rule lock_inv_run_process)
  then have a: "length (pending ?p) \<le> 1" "isJobRunning (server ?p) = (pending ?p \<noteq> [])"
    by (auto simp add: lock_inv_def split: if_splits)
  have b: "attempts (effects (server (occur API_KEY env ?p h))) \<noteq> attempts (effects (server ?p))
        \<longrightarrow> isJobRunning (server (occur API_KEY env ?p h))"
    using attempts_occur [OF inv] by blast
  have c: "\<not> isJobRunning s \<longrightarrow>
        (\<exists>n s1. begin_batch type (Options sessionCount maxConcurrent) env s = (Inr n, s1)
           \<and> isJobRunning s1 \<and> attempts (effects s1) = attempts (effects s))"
    by (simp add: begin_batch_result batch_begun_def attempts_def)
  have d: "\<not> isJobRunning s \<longrightarrow> \<not> isJobRunning (snd (runScheduledSessions type opts env s))"
  proof (cases opts)
    case NullOptions
    then show ?thesis by (simp add: runScheduledSessions_null flag_batch_failed)
  next
    case (Options c m)
    then show ?thesis by (simp add: runScheduledSessions_runs flag_batch_ended)
  qed
  have e: "isJobRunning s \<longrightarrow>
        runScheduledSessions type opts env s
          = (Inr False, s \<lparr> effects := effects s @ [Printed Log 87 []] \<rparr>)"
    by (simp add: runScheduledSessions_skips)
  show ?thesis using a b c d e by blast
qed

lemma server_respond: "server (respond r p) = server p"
  and pending_respond: "pending (respond r p) = pending p"
  and sent_respond: "sent (respond r p) = sent p @ [r]"
  by (simp_all add: respond_def)

lemma authorised_key: "authorised ''secret'' (Some ''secret'')"
  by (simp add: authorised_def)

theorem run_lock_witness:
  "pending (run_process ''secret'' steady started
      [Arrives (PostTrigger (Some ''secret'') (Some 2) None),
       Invoked ''Sunday-Wednesday'' (Options None None),
       RunSettles 0 (Inr True)]) = [AwaitingTimeout 1 2 [True]]
   \<and> isJobRunning (server (run_process ''secret'' steady started
      [Arrives (PostTrigger (Some ''secret'') (Some 2) None),
       Invoked ''Sunday-Wednesday'' (Options None None),
       RunSettles 0 (Inr True)]))
   \<and> attempts (effects (server (run_process ''secret'' steady started
      [Arrives (PostTrigger (Some ''secret'') (Some 2) None),
       Invoked ''Sunday-Wednesday'' (Options None None),
       RunSettles 0 (Inr True)]))) = [1]"
proof -
  let ?hs = "[Arrives (PostTrigger (Some ''secret'') (Some 2) None),
       Invoked ''Sunday-Wednesday'' (Options None None),
       RunSettles 0 (Inr True)]"
  have idle: "\<not> isJobRunning (server started)"
    by (simp add: started_def initial_server_def)
  have pend: "pending (run_process ''secret'' steady started ?hs) = [AwaitingTimeout 1 2 [True]]"
    and att: "attempts (effects (server (run_process ''secret'' steady started ?hs))) = [1]"
    using idle
    by (simp_all add: run_process_def handle_def authorised_key invoke_def start_batch_idle
        start_batch_busy chosen_count_def advance_def run_settled_result pushed_def
        server_respond pending_respond batch_begun_def attempts_def started_def initial_server_def)
  have "isJobRunning (server (run_process ''secret'' steady started ?hs))"
    using run_lock [of "''secret''" steady ?hs] pend by simp
  with pend att show ?thesis by simp
qed

subsection \<open>The value a batch returns\<close>

text \<open>
  Claim C4, as amended. An execution of \<^verbatim>\<open>runScheduledSessions\<close> that starts with the lock
  clear returns \<^verbatim>\<open>true\<close> however its runs settle (returning \<^verbatim>\<open>true\<close> or \<^verbatim>\<open>false\<close>, or
  throwing); when the try block itself throws (on the inputs modelled: when \<^verbatim>\<open>null\<close> is
  passed for the options) it logs an error, appends a \<^verbatim>\<open>'global'\<close> record to the statistics,
  clears the lock and returns \<^verbatim>\<open>false\<close>. An execution that finds the lock set logs that it
  skips and returns \<^verbatim>\<open>false\<close> too, changing neither the lock nor the statistics: the
  refusal differs from a batch failure in what is logged and recorded, not in the value
  returned.
\<close>

theorem batch_result:
  "(\<not> isJobRunning s \<longrightarrow>
      fst (runScheduledSessions type (Options sessionCount maxConcurrent) env s) = Inr True)
   \<and> (\<not> isJobRunning s \<longrightarrow>
      (\<exists>e. runScheduledSessions type NullOptions env s =
         (Inr False,
          s \<lparr> isJobRunning := False,
              currentJobStats := (currentJobStats s)
                \<lparr> errors := errors (currentJobStats s) @ [ErrorRecord Global (message e)] \<rparr>,
              effects := effects s @ [Printed Err 131 [Text (message e)]] \<rparr>)))
   \<and> (isJobRunning s \<longrightarrow>
      runScheduledSessions type opts env s
        = (Inr False, s \<lparr> effects := effects s @ [Printed Log 87 []] \<rparr>))"
proof -
  have a: "\<not> isJobRunning s \<longrightarrow>
      fst (runScheduledSessions type (Options sessionCount maxConcurrent) env s) = Inr True"
    by (simp add: runScheduledSessions_runs)
  have b: "\<not> isJobRunning s \<longrightarrow>
      (\<exists>e. runScheduledSessions type NullOptions env s =
         (Inr False,
          s \<lparr> isJobRunning := False,
              currentJobStats := (currentJobStats s)
                \<lparr> errors := errors (currentJobStats s) @ [ErrorRecord Global (message e)] \<rparr>,
              effects := effects s @ [Printed Err 131 [Text (message e)]] \<rparr>))"
    using runScheduledSessions_null [of s type env] unfolding batch_failed_def by blast
  have c: "isJobRunning s \<longrightarrow>
      runScheduledSessions type opts env s
        = (Inr False, s \<lparr> effects := effects s @ [Printed Log 87 []] \<rparr>)"
    by (simp add: runScheduledSessions_skips)
  show ?thesis using a b c by blast
qed

theorem batch_result_witness:
  "fst (runScheduledSessions ''on-demand'' (Options (Some 2) (Some 1)) broken initial_server)
     = Inr True
   \<and> currentJobStats (snd (runScheduledSessions ''on-demand'' (Options (Some 2) (Some 1)) broken
        initial_server))
     = \<lparr> startTime = Some ''2024-12-01T16:00:00.000Z'', completedSessions = 0,
         totalSessions = 2,
         errors = [ErrorRecord (Run 1) ''connect ECONNREFUSED'',
                   ErrorRecord (Run 2) ''connect ECONNREFUSED''] \<rparr>
   \<and> runScheduledSessions ''on-demand'' (Options (Some 2) (Some 1)) broken (server mid_batch)
     = (Inr False, (server mid_batch) \<lparr> effects := [Printed Log 87 []] \<rparr>)"
proof -
  have idle: "\<not> isJobRunning initial_server" by (simp add: initial_server_def)
  have busy: "isJobRunning (server mid_batch)" by (simp add: mid_batch_def)
  have "fst (runScheduledSessions ''on-demand'' (Options (Some 2) (Some 1)) broken initial_server)
     = Inr True"
    using batch_result [of initial_server "''on-demand''" "Some 2" "Some 1" broken] idle by blast
  moreover have "runScheduledSessions ''on-demand'' (Options (Some 2) (Some 1)) broken
        (server mid_batch)
     = (Inr False, (server mid_batch) \<lparr> effects := effects (server mid_batch) @ [Printed Log 87 []] \<rparr>)"
    using batch_result [of "server mid_batch" "''on-demand''" "Some 2" "Some 1" broken
        "Options (Some 2) (Some 1)"] busy by blast
  moreover have "effects (server mid_batch) = []" by (simp add: mid_batch_def)
  moreover have "[1..2] = [1, 2::int]" by (simp add: upto_rec1)
  then have "currentJobStats (snd (runScheduledSessions ''on-demand'' (Options (Some 2) (Some 1))
        broken initial_server))
     = \<lparr> startTime = Some ''2024-12-01T16:00:00.000Z'', completedSessions = 0,
         totalSessions = 2,
         errors = [ErrorRecord (Run 1) ''connect ECONNREFUSED'',
                   ErrorRecord (Run 2) ''connect ECONNREFUSED''] \<rparr>"
    using idle
    by (simp add: runScheduledSessions_runs [OF idle refl] chosen_count_def batch_ended_def
        stats_after_loop_begun returned_values_def thrown_errors_def pushed_def recorded_def
        successes_def broken_def)
  ultimately show ?thesis by simp
qed

text \<open>
  Claim C4 as stated fails: the value returned by a refused execution is the value returned
  by a failed batch.
\<close>

theorem refusal_returns_what_failure_returns:
  "fst (runScheduledSessions ''on-demand'' (Options (Some 2) (Some 1)) steady (server mid_batch))
     = Inr False
   \<and> fst (runScheduledSessions ''on-demand'' NullOptions steady initial_server) = Inr False"
proof -
  have idle: "\<not> isJobRunning initial_server" by (simp add: initial_server_def)
  have busy: "isJobRunning (server mid_batch)" by (simp add: mid_batch_def)
  show ?thesis
    by (simp add: runScheduledSessions_skips [OF busy] runScheduledSessions_null [OF idle])
qed

subsection \<open>The number of runs of a batch\<close>



lemma stats_of_batch:
  assumes "\<not> isJobRunning s" and "n = chosen_count sessionCount (count_draw env)"
  shows "currentJobStats (snd (runScheduledSessions type (Options sessionCount maxConcurrent) env s))
     = \<lparr> startTime = Some (clock env 96),
         completedSessions = int (length (filter (\<lambda>j. run_result env j = Inr True) [1..n])),
         totalSessions = n,
         errors = concat (map (thrown_errors env) [1..n]) \<rparr>"
  by (simp add: runScheduledSessions_runs [OF assms] batch_ended_def stats_after_loop_begun
      successes_returned_values)








subsection \<open>Errors do not cross a run boundary\<close>

text \<open>
  When every run of a batch is a call of \<^verbatim>\<open>runSession\<close> as defined above, none of them
  throws, and the batch records no error.
\<close>

lemma batch_of_modelled_runs:
  assumes "\<not> isJobRunning s"
    and "\<And>j. run_result env j = fst (runSession j n (session_envs j))"
    and "n = chosen_count sessionCount (count_draw env)"
  shows "errors (currentJobStats (snd (runScheduledSessions type
           (Options sessionCount maxConcurrent) env s))) = []"
proof -
  have "thrown_errors env j = []" for j
  proof -
    obtain r s' where "session_body j n (session_envs j) \<lparr> session = None, trace = [] \<rparr> = (r, s')"
      by (cases "session_body j n (session_envs j) \<lparr> session = None, trace = [] \<rparr>")
    then have "run_result env j = Inr (returned r)"
      using assms(2) runSession_result by simp
    then show ?thesis by (simp add: thrown_errors_def recorded_def)
  qed
  then show ?thesis by (simp add: stats_of_batch [OF assms(1,3)])
qed

subsection \<open>The process and the function agree\<close>

lemma after_loop_step:
  assumes "i \<le> n"
  shows "after_loop env n i s = after_loop env n (i + 1) (snd (iteration env n i results s))"
proof -
  have up: "[i..n] = i # [i + 1..n]" using assms by (simp add: upto_rec1)
  show ?thesis by (simp add: iteration_result after_loop_def up successes_append)
qed

lemma turn_state:
  "(settle i (run_result env i) (s \<lparr> effects := effects s @ [RunSessionCalled i n] \<rparr>))
     \<lparr> effects := effects (s \<lparr> effects := effects s @ [RunSessionCalled i n] \<rparr>)
          @ [TimeoutSet (random_delay (delay_draw env i))] \<rparr>
   = snd (iteration env n i results s)"
  by (simp add: iteration_result settle_def returned_values_def thrown_errors_def run_effects_def)

lemma process_loop:
  assumes "i \<le> n"
    and "pending q = [AwaitingRun i n results]"
    and "server q = s \<lparr> effects := effects s @ [RunSessionCalled i n] \<rparr>"
  shows "run_process API_KEY env q (turns env i n)
     = q \<lparr> server := batch_ended n (results @ concat (map (returned_values env) [i..n]))
                        (after_loop env n i s),
           pending := [] \<rparr>"
  using assms
proof (induction "nat (n - i)" arbitrary: i q s results)
  case 0
  then have "i = n" by simp
  have up: "[n..n] = [n]" by (simp add: upto_rec1)
  let ?s1 = "snd (iteration env n n results s)"
  have 1: "occur API_KEY env q (RunSettles 0 (run_result env n))
      = q \<lparr> server := ?s1, pending := [AwaitingTimeout n n (results @ returned_values env n)] \<rparr>"
    using "0.prems" \<open>i = n\<close>
    by (simp add: advance_def run_settled_result turn_state [symmetric] returned_values_def)
  have 2: "occur API_KEY env
        (q \<lparr> server := ?s1, pending := [AwaitingTimeout n n (results @ returned_values env n)] \<rparr>)
        (TimeoutFires 0)
      = q \<lparr> server := batch_ended n (results @ returned_values env n) ?s1, pending := [] \<rparr>"
    by (simp add: advance_def timeout_fired_result)
  have 3: "after_loop env n n s = ?s1"
    using after_loop_step [of n n env s results] by (simp add: after_loop_empty)
  show ?case
    unfolding \<open>i = n\<close> turns_def run_process_def up
    by (simp only: list.map concat.simps append_Nil2 foldl.simps append.simps 1 2 3)
next
  case (Suc k)
  then have lt: "i + 1 \<le> n" and k: "k = nat (n - (i + 1))" by simp_all
  have up: "[i..n] = i # [i + 1..n]" using Suc.prems(1) by (simp add: upto_rec1)
  let ?s1 = "snd (iteration env n i results s)"
  let ?r1 = "results @ returned_values env i"
  let ?q1 = "q \<lparr> server := ?s1, pending := [AwaitingTimeout i n ?r1] \<rparr>"
  let ?q2 = "q \<lparr> server := ?s1 \<lparr> effects := effects ?s1 @ [RunSessionCalled (i + 1) n] \<rparr>,
                  pending := [AwaitingRun (i + 1) n ?r1] \<rparr>"
  have 1: "occur API_KEY env q (RunSettles 0 (run_result env i)) = ?q1"
    using Suc.prems
    by (simp add: advance_def run_settled_result turn_state [symmetric] returned_values_def)
  have 2: "occur API_KEY env ?q1 (TimeoutFires 0) = ?q2"
    using lt by (simp add: advance_def timeout_fired_result)
  have "run_process API_KEY env q (turns env i n) = run_process API_KEY env ?q2 (turns env (i + 1) n)"
    unfolding turns_def run_process_def up
    by (simp only: list.map concat.simps foldl.simps append.simps foldl_append 1 2)
  also have "\<dots> = ?q2 \<lparr> server := batch_ended n (?r1 @ concat (map (returned_values env) [i + 1..n]))
                        (after_loop env n (i + 1) ?s1),
           pending := [] \<rparr>"
    by (rule Suc.hyps(1) [OF k lt]) simp_all
  also have "\<dots> = q \<lparr> server := batch_ended n (results @ concat (map (returned_values env) [i..n]))
                        (after_loop env n i s),
           pending := [] \<rparr>"
    using after_loop_step [OF Suc.prems(1), of env s results] by (simp add: up)
  finally show ?case .
qed

text \<open>
  The process, fed with the outcomes of the environment and nothing else, carries a batch
  from its call to its end exactly as \<^verbatim>\<open>runScheduledSessions\<close> does in one piece.
\<close>

lemma process_runs_the_batch:
  assumes "\<not> isJobRunning (server p)" and "pending p = []"
    and "n = chosen_count sessionCount (count_draw env)"
  shows "run_process API_KEY env p
           (Invoked type (Options sessionCount maxConcurrent) # turns env 1 n)
     = p \<lparr> server := snd (runScheduledSessions type (Options sessionCount maxConcurrent) env
                          (server p)),
           pending := [] \<rparr>"
proof (cases "1 \<le> n")
  case False
  then have "[1..n] = []" by simp
  then have "turns env 1 n = []" by (simp add: turns_def)
  moreover have "occur API_KEY env p (Invoked type (Options sessionCount maxConcurrent))
      = p \<lparr> server := batch_ended n [] (batch_begun type n env (server p)) \<rparr>"
    using False by (simp add: invoke_def start_batch_idle [OF assms(1,3)])
  moreover have "snd (runScheduledSessions type (Options sessionCount maxConcurrent) env (server p))
      = batch_ended n [] (batch_begun type n env (server p))"
    using False \<open>[1..n] = []\<close>
    by (simp add: runScheduledSessions_runs [OF assms(1,3)] after_loop_empty)
  ultimately show ?thesis using assms(2) by (simp add: run_process_def)
next
  case True
  let ?s = "batch_begun type n env (server p)"
  let ?q = "p \<lparr> server := ?s \<lparr> effects := effects ?s @ [RunSessionCalled 1 n] \<rparr>,
                 pending := [AwaitingRun 1 n []] \<rparr>"
  have start: "occur API_KEY env p (Invoked type (Options sessionCount maxConcurrent)) = ?q"
    using True assms(2) by (simp add: invoke_def start_batch_idle [OF assms(1,3)])
  have "run_process API_KEY env p (Invoked type (Options sessionCount maxConcurrent) # turns env 1 n)
      = run_process API_KEY env ?q (turns env 1 n)"
    by (simp only: run_process_def foldl.simps start)
  also have "\<dots> = ?q \<lparr> server := batch_ended n ([] @ concat (map (returned_values env) [1..n]))
                        (after_loop env n 1 ?s),
           pending := [] \<rparr>"
    by (rule process_loop [OF True]) simp_all
  finally show ?thesis
    by (simp add: runScheduledSessions_runs [OF assms(1,3)])
qed

subsection \<open>The HTTP surface\<close>

text \<open>
  Claim C8. A trigger request with a valid key that arrives while \<^verbatim>\<open>isJobRunning\<close> is set
  is answered 409 with the current \<^verbatim>\<open>currentJobStats\<close> as \<^verbatim>\<open>currentJob\<close>, and changes nothing
  else in the process: the statistics, the lock, the record of effects and the suspended
  batch are as they were.
\<close>

theorem trigger_while_running:
  assumes "authorised API_KEY header" and "isJobRunning (server p)"
  shows "occur API_KEY env p (Arrives (PostTrigger header sessionCount maxConcurrent))
           = p \<lparr> sent := sent p @ [Conflict (currentJobStats (server p))] \<rparr>
     \<and> currentJobStats (server (occur API_KEY env p
           (Arrives (PostTrigger header sessionCount maxConcurrent)))) = currentJobStats (server p)
     \<and> server (occur API_KEY env p (Arrives (PostTrigger header sessionCount maxConcurrent)))
           = server p
     \<and> pending (occur API_KEY env p (Arrives (PostTrigger header sessionCount maxConcurrent)))
           = pending p"
  using assms by (simp add: handle_def respond_def)

theorem trigger_while_running_witness:
  "occur ''secret'' steady mid_batch (Arrives (PostTrigger (Some ''secret'') (Some 5) None))
     = mid_batch \<lparr> sent :=
         [Conflict \<lparr> startTime = Some ''2024-12-01T16:00:00.000Z'', completedSessions = 1,
                     totalSessions = 3, errors = [] \<rparr>] \<rparr>"
proof -
  have auth: "authorised ''secret'' (Some ''secret'')" by (simp add: authorised_def)
  have busy: "isJobRunning (server mid_batch)" by (simp add: mid_batch_def)
  show ?thesis
    using trigger_while_running [OF auth busy, of steady "Some 5" None]
    by (simp add: mid_batch_def)
qed

lemma single_run_scenario:
  assumes "authorised API_KEY header" and "\<not> isJobRunning (server p)" and "pending p = []"
  shows "sent (run_process API_KEY env p [Arrives (PostTrigger header (Some 1) maxConcurrent)])
           = sent p @ [Accepted (Count 1) (case maxConcurrent of None \<Rightarrow> 1 | Some m \<Rightarrow> m)]
     \<and> isJobRunning (server (run_process API_KEY env p
           [Arrives (PostTrigger header (Some 1) maxConcurrent)]))
     \<and> run_process API_KEY env p
          [Arrives (PostTrigger header (Some 1) maxConcurrent),
           RunSettles 0 settled, TimeoutFires 0, Arrives (GetStatus header)]
         = \<lparr> server =
               \<lparr> isJobRunning = False,
                 currentJobStats =
                   \<lparr> startTime = Some (clock env 96),
                     completedSessions = (if settled = Inr True then 1 else 0),
                     totalSessions = 1,
                     errors = (case settled of
                                 Inl e \<Rightarrow> [ErrorRecord (Run 1) (message e)]
                               | Inr b \<Rightarrow> []) \<rparr>,
                 effects = effects (server p)
                   @ [Printed Log 102 [Text (clock env 102), Text ''on-demand''],
                      Printed Log 103 [Number 1],
                      RunSessionCalled 1 1,
                      TimeoutSet (random_delay (delay_draw env 1)),
                      Printed Log 127 [Number (if settled = Inr True then 1 else 0), Number 1]] \<rparr>,
             pending = [],
             sent = sent p @ [Accepted (Count 1) (case maxConcurrent of None \<Rightarrow> 1 | Some m \<Rightarrow> m),
                              StatusReport False None] \<rparr>"
proof -
  let ?mc = "case maxConcurrent of None \<Rightarrow> 1 | Some m \<Rightarrow> m"
  let ?k = "if settled = Inr True then 1 else (0::int)"
  let ?s1 = "(batch_begun ''on-demand'' 1 env (server p))
     \<lparr> effects := effects (batch_begun ''on-demand'' 1 env (server p)) @ [RunSessionCalled 1 1] \<rparr>"
  let ?p1 = "\<lparr> server = ?s1, pending = [AwaitingRun 1 1 []],
     sent = sent p @ [Accepted (Count 1) ?mc] \<rparr>"
  let ?s2 = "(settle 1 settled ?s1)
     \<lparr> effects := effects ?s1 @ [TimeoutSet (random_delay (delay_draw env 1))] \<rparr>"
  let ?p2 = "?p1 \<lparr> server := ?s2, pending := [AwaitingTimeout 1 1 (pushed settled)] \<rparr>"
  let ?p3 = "?p2 \<lparr> server := batch_ended 1 (pushed settled) ?s2, pending := [] \<rparr>"
  have n: "1 = chosen_count (Some 1) (count_draw env)" by (simp add: chosen_count_def)
  have k: "successes (pushed settled) = ?k"
    by (cases settled) (auto simp add: pushed_def successes_def)
  have e: "recorded 1 settled
      = (case settled of Inl e \<Rightarrow> [ErrorRecord (Run 1) (message e)] | Inr b \<Rightarrow> [])"
    by (simp add: recorded_def)
  have step1: "occur API_KEY env p (Arrives (PostTrigger header (Some 1) maxConcurrent)) = ?p1"
    using assms
    by (simp add: handle_def Let_def invoke_def start_batch_idle [OF assms(2) n] respond_def)
  have step2: "occur API_KEY env ?p1 (RunSettles 0 settled) = ?p2"
    by (simp add: advance_def run_settled_result)
  have step3: "occur API_KEY env ?p2 (TimeoutFires 0) = ?p3"
    by (simp add: advance_def timeout_fired_result)
  have step4: "occur API_KEY env ?p3 (Arrives (GetStatus header))
      = ?p3 \<lparr> sent := sent ?p3 @ [StatusReport False None] \<rparr>"
    using assms(1) by (simp add: handle_def respond_def batch_ended_def)
  have a: "sent (run_process API_KEY env p [Arrives (PostTrigger header (Some 1) maxConcurrent)])
           = sent p @ [Accepted (Count 1) ?mc]"
    and b: "isJobRunning (server (run_process API_KEY env p
           [Arrives (PostTrigger header (Some 1) maxConcurrent)]))"
    by (simp_all only: run_process_def foldl.simps step1) (simp_all add: batch_begun_def)
  have "run_process API_KEY env p
          [Arrives (PostTrigger header (Some 1) maxConcurrent),
           RunSettles 0 settled, TimeoutFires 0, Arrives (GetStatus header)]
      = ?p3 \<lparr> sent := sent ?p3 @ [StatusReport False None] \<rparr>"
    by (simp only: run_process_def foldl.simps step1 step2 step3 step4)
  also have "\<dots> = \<lparr> server =
               \<lparr> isJobRunning = False,
                 currentJobStats =
                   \<lparr> startTime = Some (clock env 96),
                     completedSessions = ?k,
                     totalSessions = 1,
                     errors = (case settled of
                                 Inl e \<Rightarrow> [ErrorRecord (Run 1) (message e)]
                               | Inr b \<Rightarrow> []) \<rparr>,
                 effects = effects (server p)
                   @ [Printed Log 102 [Text (clock env 102), Text ''on-demand''],
                      Printed Log 103 [Number 1],
                      RunSessionCalled 1 1,
                      TimeoutSet (random_delay (delay_draw env 1)),
                      Printed Log 127 [Number ?k, Number 1]] \<rparr>,
             pending = [],
             sent = sent p @ [Accepted (Count 1) ?mc, StatusReport False None] \<rparr>"
    by (simp add: batch_ended_def batch_begun_def settle_def k e)
  finally show ?thesis using a b by simp
qed


text \<open>
  Claim C7, as amended. A trigger with \<^verbatim>\<open>sessionCount\<close> 1 and a valid key, arriving while
  no batch runs, is answered 202 and leaves the lock set. Once the single run has settled
  and the delay after it has passed, the batch is over; a status request with a valid key is
  then answered with \<^verbatim>\<open>isJobRunning: false\<close> and \<^verbatim>\<open>currentJob: null\<close>. The completed count,
  1 if the run returned \<^verbatim>\<open>true\<close> and 0 otherwise, is held in \<^verbatim>\<open>currentJobStats\<close> but is not
  part of the response.
\<close>

theorem status_after_single_run:
  assumes "authorised API_KEY header" and "\<not> isJobRunning (server p)" and "pending p = []"
  shows "sent (run_process API_KEY env p [Arrives (PostTrigger header (Some 1) maxConcurrent)])
           = sent p @ [Accepted (Count 1) (case maxConcurrent of None \<Rightarrow> 1 | Some m \<Rightarrow> m)]
     \<and> isJobRunning (server (run_process API_KEY env p
           [Arrives (PostTrigger header (Some 1) maxConcurrent)]))
     \<and> run_process API_KEY env p
          [Arrives (PostTrigger header (Some 1) maxConcurrent),
           RunSettles 0 settled, TimeoutFires 0, Arrives (GetStatus header)]
         = \<lparr> server =
               \<lparr> isJobRunning = False,
                 currentJobStats =
                   \<lparr> startTime = Some (clock env 96),
                     completedSessions = (if settled = Inr True then 1 else 0),
                     totalSessions = 1,
                     errors = (case settled of
                                 Inl e \<Rightarrow> [ErrorRecord (Run 1) (message e)]
                               | Inr b \<Rightarrow> []) \<rparr>,
                 effects = effects (server p)
                   @ [Printed Log 102 [Text (clock env 102), Text ''on-demand''],
                      Printed Log 103 [Number 1],
                      RunSessionCalled 1 1,
                      TimeoutSet (random_delay (delay_draw env 1)),
                      Printed Log 127 [Number (if settled = Inr True then 1 else 0), Number 1]] \<rparr>,
             pending = [],
             sent = sent p @ [Accepted (Count 1) (case maxConcurrent of None \<Rightarrow> 1 | Some m \<Rightarrow> m),
                              StatusReport False None] \<rparr>"
  using assms by (rule single_run_scenario)

theorem status_after_single_run_witness:
  "run_process ''secret'' broken started
     [Arrives (PostTrigger (Some ''secret'') (Some 1) None),
      RunSettles 0 (Inl (Thrown Error ''connect ECONNREFUSED'')), TimeoutFires 0,
      Arrives (GetStatus (Some ''secret''))]
   = \<lparr> server =
         \<lparr> isJobRunning = False,
           currentJobStats =
             \<lparr> startTime = Some ''2024-12-01T16:00:00.000Z'', completedSessions = 0,
               totalSessions = 1, errors = [ErrorRecord (Run 1) ''connect ECONNREFUSED''] \<rparr>,
           effects =
             [Printed Log 102 [Text ''2024-12-01T16:00:00.000Z'', Text ''on-demand''],
              Printed Log 103 [Number 1], RunSessionCalled 1 1, TimeoutSet 2000,
              Printed Log 127 [Number 0, Number 1]] \<rparr>,
       pending = [],
       sent = [Accepted (Count 1) 1, StatusReport False None] \<rparr>"
proof -
  have auth: "authorised ''secret'' (Some ''secret'')" by (simp add: authorised_def)
  have idle: "\<not> isJobRunning (server started)" "pending started = []"
    by (simp_all add: started_def initial_server_def)
  have delay: "random_delay (delay_draw broken 1) = 2000"
    by (simp add: random_delay_def broken_def)
  show ?thesis
    using status_after_single_run [OF auth idle, of broken None
        "Inl (Thrown Error ''connect ECONNREFUSED'')"] delay
    by (simp add: started_def initial_server_def broken_def)
qed

text \<open>
  Claim C7 as stated fails: after the batch of one successful run has ended, the status
  response carries no job at all, although the statistics hold one completed session.
\<close>

theorem status_after_completion_has_no_job:
  "sent (run_process ''secret'' steady started
     [Arrives (PostTrigger (Some ''secret'') (Some 1) None),
      RunSettles 0 (Inr True), TimeoutFires 0,
      Arrives (GetStatus (Some ''secret''))])
     = [Accepted (Count 1) 1, StatusReport False None]
   \<and> completedSessions (currentJobStats (server (run_process ''secret'' steady started
     [Arrives (PostTrigger (Some ''secret'') (Some 1) None),
      RunSettles 0 (Inr True), TimeoutFires 0,
      Arrives (GetStatus (Some ''secret''))]))) = 1"
proof -
  have auth: "authorised ''secret'' (Some ''secret'')" by (simp add: authorised_def)
  have idle: "\<not> isJobRunning (server started)" "pending started = []"
    by (simp_all add: started_def initial_server_def)
  show ?thesis
    using single_run_scenario [OF auth idle, of steady None "Inr True"]
    by (simp add: started_def)
qed

end
